theory Spec2Isabelle
  imports Complex_Main "HOL-Library.Log_Nat" "HOL-Library.Multiset" "HOL-Library.Sublist"
begin

section \<open>JavaScript numbers\<close>

text \<open>
  A finite JavaScript number is an IEEE 754 binary64 value, hence a rational. The model
  keeps the value as a \<^typ>\<open>rat\<close> and rounds the exact result of every arithmetic
  operation to the nearest binary64 value, ties to the even significand: \<open>fl\<close>.
  Values of magnitude \<open>2 ^ 1024\<close> and more (which overflow to Infinity) do not occur
  in the functions below and are not represented.
\<close>

type_synonym number = rat

definition round_even :: "rat \<Rightarrow> int" where
  "round_even x = (let f = \<lfloor>x\<rfloor>; d = x - of_int f in
     if d < 1 / 2 then f else if 1 / 2 < d then f + 1 else if even f then f else f + 1)"

definition ilog2 :: "rat \<Rightarrow> int" where
  \<comment> \<open>the binary exponent \<open>e\<close> of a positive \<open>q\<close>: \<open>2 ^ e \<le> q < 2 ^ (e + 1)\<close>\<close>
  "ilog2 q = (if 1 \<le> q then bitlen \<lfloor>q\<rfloor> - 1 else - bitlen (\<lceil>1 / q\<rceil> - 1))"

definition ulp :: "rat \<Rightarrow> rat" where
  \<comment> \<open>spacing of the binary64 values around a positive \<open>q\<close>: 53 significant bits, and
      the fixed spacing \<open>2 ^ - 1074\<close> of the subnormal range\<close>
  "ulp q = 2 powi (max (ilog2 q) (- 1022) - 52)"

definition fl :: "rat \<Rightarrow> number" where
  "fl q = (if q = 0 then 0
           else if 0 < q then of_int (round_even (q / ulp q)) * ulp q
           else - (of_int (round_even (- q / ulp (- q))) * ulp (- q)))"

definition Math_round :: "number \<Rightarrow> int" where
  \<comment> \<open>\<open>Math.round\<close>: the nearest integer, a tie going towards plus infinity\<close>
  "Math_round x = \<lfloor>x + 1 / 2\<rfloor>"

definition Math_floor :: "number \<Rightarrow> int" where
  "Math_floor x = \<lfloor>x\<rfloor>"

section \<open>utils: shuffleArray, calculateWPM, calculateAccuracy\<close>

text \<open>
  \<open>Math.random()\<close> is a source of binary64 values in \<open>[0, 1)\<close>. A call of
  \<open>shuffleArray\<close> draws once per iteration of its loop; \<open>rnd i\<close> is the value drawn
  in the iteration whose loop variable is \<open>i\<close>.
\<close>

type_synonym draws = "nat \<Rightarrow> number"

definition random_draw :: "number \<Rightarrow> bool" where
  \<comment> \<open>what \<open>Math.random()\<close> can return: a binary64 value in \<open>[0, 1)\<close>\<close>
  "random_draw r \<longleftrightarrow> 0 \<le> r \<and> r < 1 \<and> fl r = r"

definition random_index :: "number \<Rightarrow> nat \<Rightarrow> nat" where
  \<comment> \<open>\<open>Math.floor(Math.random() * (i + 1))\<close>\<close>
  "random_index r i = nat (Math_floor (fl (r * of_nat (i + 1))))"

definition swap :: "'a list \<Rightarrow> nat \<Rightarrow> nat \<Rightarrow> 'a list" where
  \<comment> \<open>\<open>[a[i], a[j]] = [a[j], a[i]]\<close>: both reads, then the write to \<open>i\<close>, then to \<open>j\<close>.
      In the loop \<open>i\<close> is an index of the array, and so is \<open>j\<close> for every value that
      \<open>Math.random()\<close> can return (\<open>random_index_le\<close> below); a write beyond the end,
      which would extend a JavaScript array, does not occur.\<close>
  "swap a i j = (a[i := a ! j])[j := a ! i]"

fun shuffle_loop :: "draws \<Rightarrow> nat \<Rightarrow> 'a list \<Rightarrow> 'a list" where
  "shuffle_loop rnd 0 newArray = newArray"
| "shuffle_loop rnd (Suc k) newArray =
     shuffle_loop rnd k (swap newArray (Suc k) (random_index (rnd (Suc k)) (Suc k)))"

definition shuffleArray :: "draws \<Rightarrow> 'a list \<Rightarrow> 'a list" where
  "shuffleArray rnd array = shuffle_loop rnd (length array - 1) array"

text \<open>
  The same function on a store of array objects, where an array is a reference: the
  store is the list of all allocated arrays and a reference is an index into it.
  \<open>[...array]\<close> allocates a new array; the loop writes through the reference
  \<open>newArray\<close> only.
\<close>

type_synonym 'a store = "'a list list"

fun shuffle_loop_store :: "draws \<Rightarrow> nat \<Rightarrow> nat \<Rightarrow> 'a store \<Rightarrow> 'a store" where
  "shuffle_loop_store rnd 0 newArray h = h"
| "shuffle_loop_store rnd (Suc k) newArray h =
     shuffle_loop_store rnd k newArray
       (h[newArray := swap (h ! newArray) (Suc k) (random_index (rnd (Suc k)) (Suc k))])"

definition shuffleArray_store :: "draws \<Rightarrow> nat \<Rightarrow> 'a store \<Rightarrow> 'a store \<times> nat" where
  "shuffleArray_store rnd array h =
     (let newArray = length h;
          h1 = h @ [h ! array]
      in (shuffle_loop_store rnd (length (h1 ! newArray) - 1) newArray h1, newArray))"

definition calculateWPM :: "number \<Rightarrow> number \<Rightarrow> int" where
  "calculateWPM correctWords timeInSeconds =
     (if timeInSeconds \<le> 0 then 0
      else Math_round (fl (fl (correctWords / timeInSeconds) * 60)))"

definition calculateAccuracy :: "number \<Rightarrow> number \<Rightarrow> int" where
  "calculateAccuracy correct incorrect =
     (let total = fl (correct + incorrect)
      in if total = 0 then 0 else Math_round (fl (fl (correct / total) * 100)))"

section \<open>App: the active word's matched prefix\<close>

function match_loop :: "string \<Rightarrow> string \<Rightarrow> nat \<Rightarrow> string \<Rightarrow> string" where
  "match_loop wordText typed i matchPart =
     (if i < length typed
      then match_loop wordText typed (Suc i)
             (if i < length wordText \<and> typed ! i = wordText ! i \<and> length matchPart = i
              then matchPart @ [typed ! i] else matchPart)
      else matchPart)"
  by pat_completeness auto
termination
  by (relation "measure (\<lambda>(wordText, typed, i, matchPart). length typed - i)") auto

declare match_loop.simps [simp del]

definition matchPart :: "string \<Rightarrow> string \<Rightarrow> string" where
  "matchPart wordText typed = match_loop wordText typed 0 []"

definition remainingPart :: "string \<Rightarrow> string \<Rightarrow> string" where
  \<comment> \<open>\<open>wordText.substring(matchPart.length)\<close>\<close>
  "remainingPart wordText typed = drop (length (matchPart wordText typed)) wordText"

section \<open>JavaScript strings\<close>

text \<open>
  A string is the list of its code units; the model keeps the code units below 256, so
  that \<open>length\<close> is \<open>.length\<close>. \<open>trim\<close> removes the white space and line
  terminators of ECMAScript at both ends; below 256 these are the six characters here
  and the no-break space.
\<close>

definition isWhiteSpace :: "char \<Rightarrow> bool" where
  "isWhiteSpace c \<longleftrightarrow>
     c = CHR 0x09 \<or> c = CHR 0x0A \<or> c = CHR 0x0B \<or> c = CHR 0x0C \<or> c = CHR 0x0D
     \<or> c = CHR 0x20 \<or> c = CHR 0xA0"

definition trim :: "string \<Rightarrow> string" where
  "trim s = rev (dropWhile isWhiteSpace (rev (dropWhile isWhiteSpace s)))"

definition endsWith :: "string \<Rightarrow> char \<Rightarrow> bool" where
  "endsWith s c \<longleftrightarrow> s \<noteq> [] \<and> last s = c"

section \<open>constants and types\<close>

definition DEFAULT_WORDS :: "string list" where
  "DEFAULT_WORDS =
    [''the'', ''quick'', ''brown'', ''fox'', ''jumps'', ''over'', ''the'', ''lazy'', ''dog'',
     ''programming'', ''javascript'', ''typescript'', ''react'', ''coding'', ''developer'',
     ''software'', ''engineer'', ''performance'', ''interface'', ''dynamic'', ''component'',
     ''function'', ''variable'', ''constant'', ''database'', ''server'', ''cloud'', ''network'',
     ''security'', ''algorithm'', ''design'', ''structure'', ''system'', ''application'',
     ''mobile'', ''desktop'', ''browser'', ''optimization'', ''rendering'', ''asynchronous'']"

definition TIME_OPTIONS :: "nat list" where
  "TIME_OPTIONS = [15, 30, 60, 120, 300]"

text \<open>
  The types of \<open>types.ts\<close>. The field \<open>status\<close> of a \<open>WordObject\<close> is
  \<open>wstatus\<close> here and the field \<open>id\<close> of a \<open>ScoreEntry\<close> is \<open>ident\<close>, the
  names \<open>status\<close> (the state variable of \<open>App\<close>) and \<open>id\<close> being taken. The
  counters only count up from 0 and are natural numbers.
\<close>

datatype GameStatus = Idle | Playing | Finished

datatype WordStatus = Pending | Correct | Incorrect | Active

record WordObject =
  "text" :: string
  wstatus :: WordStatus

record GameStats =
  wpm :: int
  accuracy :: int
  correctWords :: nat
  incorrectWords :: nat
  totalKeystrokes :: nat
  timeSpent :: nat

record ScoreEntry = GameStats +
  ident :: string
  timestamp :: nat
  topic :: string

datatype JSError = TypeError | SyntaxError

section \<open>App: the state of the component and its environment\<close>

text \<open>
  The state variables of \<open>App\<close> (\<open>useState\<close>) are the first fields. The others are
  the environment the handlers act on: the intervals registered with \<open>setInterval\<close>
  and not yet cleared, \<open>timerRef.current\<close>, the next interval handle, and the score
  list stored under \<open>typing_scores\<close> (kept as the list that the stored text encodes;
  \<open>getScoreHistory\<close> below works on the text).

  The callback given to \<open>setInterval\<close> closes over the \<open>endGame\<close> of the render in
  which \<open>startGame\<close> ran, and that \<open>endGame\<close> over \<open>duration\<close>, \<open>selectedTopic\<close>
  and \<open>customTopic\<close> of that render: an interval carries these three values.
  State updaters run once each, in the order they were queued.
\<close>

record interval =
  handle :: nat
  closed_duration :: nat
  closed_selectedTopic :: string
  closed_customTopic :: string

record app =
  status :: GameStatus
  words :: "WordObject list"
  currentIndex :: nat
  inputValue :: string
  timeLeft :: nat
  duration :: nat
  selectedTopic :: string
  customTopic :: string
  history :: "ScoreEntry list"
  stats :: GameStats
  intervals :: "interval list"
  timerRef :: "nat option"
  nextHandle :: nat
  typing_scores :: "ScoreEntry list"

definition zeroStats :: GameStats where
  "zeroStats = \<lparr>wpm = 0, accuracy = 0, correctWords = 0, incorrectWords = 0,
                 totalKeystrokes = 0, timeSpent = 0\<rparr>"

definition initialState :: "ScoreEntry list \<Rightarrow> app" where
  \<comment> \<open>the first render, over a storage that holds the scores \<open>stored\<close>\<close>
  "initialState stored =
     \<lparr>status = Idle, words = [], currentIndex = 0, inputValue = [], timeLeft = 60,
      duration = 60, selectedTopic = ''random'', customTopic = [], history = [],
      stats = zeroStats, intervals = [], timerRef = None, nextHandle = 1,
      typing_scores = stored\<rparr>"

definition pendingWord :: "string \<Rightarrow> WordObject" where
  \<comment> \<open>\<open>(w): WordObject => ({ text: w, status: 'pending' })\<close>\<close>
  "pendingWord w = \<lparr>text = w, wstatus = Pending\<rparr>"

definition initGame :: "draws \<Rightarrow> string list option \<Rightarrow> app \<Rightarrow> JSError + app" where
  "initGame rnd customWords s =
     (let baseWords = (case customWords of None \<Rightarrow> DEFAULT_WORDS | Some ws \<Rightarrow> ws);
          shuffled = map pendingWord (shuffleArray rnd baseWords)
      in if shuffled = [] then Inl TypeError
         else Inr (s\<lparr>words := shuffled[0 := (shuffled ! 0)\<lparr>wstatus := Active\<rparr>],
                     currentIndex := 0,
                     inputValue := [],
                     timeLeft := duration s,
                     status := Idle,
                     stats := zeroStats\<rparr>))"

definition startGame :: "app \<Rightarrow> app" where
  "startGame s =
     s\<lparr>status := Playing,
       intervals := intervals s @
         [\<lparr>handle = nextHandle s, closed_duration = duration s,
           closed_selectedTopic = selectedTopic s, closed_customTopic = customTopic s\<rparr>],
       timerRef := Some (nextHandle s),
       nextHandle := nextHandle s + 1\<rparr>"

definition saveScore :: "ScoreEntry \<Rightarrow> ScoreEntry list \<Rightarrow> ScoreEntry list" where
  \<comment> \<open>the new content of \<open>typing_scores\<close>: \<open>history.slice(-100)\<close> after the push\<close>
  "saveScore score stored =
     (let history = stored @ [score] in drop (length history - 100) history)"

definition clearInterval :: "nat option \<Rightarrow> interval list \<Rightarrow> interval list" where
  \<comment> \<open>\<open>if (timerRef.current) clearInterval(timerRef.current)\<close>\<close>
  "clearInterval ref ivs =
     (case ref of None \<Rightarrow> ivs | Some h \<Rightarrow> filter (\<lambda>iv. handle iv \<noteq> h) ivs)"

definition endGame :: "interval \<Rightarrow> string \<Rightarrow> nat \<Rightarrow> app \<Rightarrow> app" where
  \<comment> \<open>\<open>rid\<close> is \<open>Math.random().toString(36).substr(2, 9)\<close>, \<open>now\<close> is \<open>Date.now()\<close>\<close>
  "endGame iv rid now s =
     (let prev = stats s;
          finalWpm = calculateWPM (of_nat (correctWords prev)) (of_nat (closed_duration iv));
          finalAccuracy =
            calculateAccuracy (of_nat (correctWords prev)) (of_nat (incorrectWords prev));
          newScore =
            \<lparr>wpm = finalWpm, accuracy = finalAccuracy,
             correctWords = correctWords prev, incorrectWords = incorrectWords prev,
             totalKeystrokes = totalKeystrokes prev, timeSpent = closed_duration iv,
             ident = rid, timestamp = now,
             topic = (if closed_selectedTopic iv = ''custom''
                      then closed_customTopic iv else closed_selectedTopic iv)\<rparr>
      in s\<lparr>intervals := clearInterval (timerRef s) (intervals s),
           status := Finished,
           typing_scores := saveScore newScore (typing_scores s),
           history := history s @ [newScore],
           stats := prev\<lparr>wpm := finalWpm, accuracy := finalAccuracy\<rparr>\<rparr>)"

definition callback :: "interval \<Rightarrow> string \<Rightarrow> nat \<Rightarrow> app \<Rightarrow> app" where
  \<comment> \<open>the function given to \<open>setInterval\<close>: the updater of \<open>timeLeft\<close>, which calls
      \<open>endGame\<close>\<close>
  "callback iv rid now s =
     (if timeLeft s \<le> 1 then (endGame iv rid now s)\<lparr>timeLeft := 0\<rparr>
      else s\<lparr>timeLeft := timeLeft s - 1\<rparr>)"

definition tick :: "nat \<Rightarrow> string \<Rightarrow> nat \<Rightarrow> app \<Rightarrow> app" where
  \<comment> \<open>one second has passed for the interval with handle \<open>h\<close>; a cleared interval
      does not fire\<close>
  "tick h rid now s =
     (case find (\<lambda>iv. handle iv = h) (intervals s) of
        None \<Rightarrow> s
      | Some iv \<Rightarrow> callback iv rid now s)"

definition handleInputChange :: "draws \<Rightarrow> string \<Rightarrow> app \<Rightarrow> JSError + app" where
  "handleInputChange rnd val s0 =
     (let s = (if status s0 = Idle then startGame s0 else s0)
      in if \<not> currentIndex s0 < length (words s0) then Inl TypeError
         else if endsWith val CHR '' '' then
           (let typedWord = trim val;
                currentWord = text (words s0 ! currentIndex s0);
                isCorrect = (typedWord = currentWord);
                next = (words s)[currentIndex s0 :=
                         (words s ! currentIndex s0)
                           \<lparr>wstatus := (if isCorrect then Correct else Incorrect)\<rparr>];
                next = (if currentIndex s0 + 1 < length next
                        then next[currentIndex s0 + 1 :=
                               (next ! (currentIndex s0 + 1))\<lparr>wstatus := Active\<rparr>]
                        else next);
                prev = stats s;
                stats' = prev
                  \<lparr>correctWords :=
                     (if isCorrect then correctWords prev + 1 else correctWords prev),
                   incorrectWords :=
                     (if isCorrect then incorrectWords prev else incorrectWords prev + 1),
                   totalKeystrokes := totalKeystrokes prev + length typedWord + 1\<rparr>;
                next = (if currentIndex s0 + 10 > length (words s0)
                        then next @ map pendingWord (shuffleArray rnd DEFAULT_WORDS)
                        else next)
            in Inr (s\<lparr>words := next, stats := stats',
                        currentIndex := currentIndex s + 1, inputValue := []\<rparr>))
         else if length val \<le> length (text (words s0 ! currentIndex s0)) + 3
           then Inr (s\<lparr>inputValue := val\<rparr>)
           else Inr s)"

definition selectDuration :: "draws \<Rightarrow> nat \<Rightarrow> app \<Rightarrow> JSError + app" where
  \<comment> \<open>a duration button: \<open>setDuration(t); setTimeLeft(t)\<close>, and then the effect that
      depends on \<open>initGame\<close>, which is a new function when \<open>duration\<close> has changed\<close>
  "selectDuration rnd t s =
     (let s' = s\<lparr>duration := t, timeLeft := t\<rparr>
      in if t \<noteq> duration s then initGame rnd None s' else Inr s')"

definition handleThemeChange :: "draws \<Rightarrow> string \<Rightarrow> string list \<Rightarrow> app \<Rightarrow> JSError + app" where
  \<comment> \<open>\<open>generated\<close> is what \<open>generateThematicWords\<close> resolves to\<close>
  "handleThemeChange rnd themeId generated s =
     (let s' = s\<lparr>selectedTopic := themeId\<rparr>
      in if themeId = ''custom'' then Inr s'
         else (let newWords = (if themeId = ''tech'' \<or> themeId = ''nature''
                               then generated else DEFAULT_WORDS)
               in initGame rnd (if length newWords > 0 then Some newWords else None) s'))"

definition handleCustomTopicSubmit :: "draws \<Rightarrow> string list \<Rightarrow> app \<Rightarrow> JSError + app" where
  "handleCustomTopicSubmit rnd generated s =
     (if customTopic s = [] then Inr s
      else initGame rnd (if length generated > 0 then Some generated else None) s)"

definition mount :: "draws \<Rightarrow> ScoreEntry list \<Rightarrow> JSError + app" where
  \<comment> \<open>the two effects of the first render: load the history, then \<open>initGame()\<close>\<close>
  "mount rnd stored = initGame rnd None ((initialState stored)\<lparr>history := stored\<rparr>)"

datatype event =
    InputChange string draws
  | Tick nat string nat
  | SelectDuration nat draws
  | ThemeChange string "string list" draws
  | CustomTopicChange string
  | CustomTopicSubmit "string list" draws
  | NewRace draws
  | HistoryButton
  | ResetButton

fun step :: "event \<Rightarrow> app \<Rightarrow> JSError + app" where
  "step (InputChange val rnd) s = handleInputChange rnd val s"
| "step (Tick h rid now) s = Inr (tick h rid now s)"
| "step (SelectDuration t rnd) s = selectDuration rnd t s"
| "step (ThemeChange themeId generated rnd) s = handleThemeChange rnd themeId generated s"
| "step (CustomTopicChange v) s = Inr (s\<lparr>customTopic := v\<rparr>)"
| "step (CustomTopicSubmit generated rnd) s = handleCustomTopicSubmit rnd generated s"
| "step (NewRace rnd) s = initGame rnd None s"
| "step HistoryButton s = Inr (s\<lparr>status := Idle\<rparr>)"
| "step ResetButton s = Inr (s\<lparr>typing_scores := [], history := []\<rparr>)"

fun run :: "event list \<Rightarrow> app \<Rightarrow> JSError + app" where
  "run [] s = Inr s"
| "run (e # es) s = (case step e s of Inl err \<Rightarrow> Inl err | Inr s' \<Rightarrow> run es s')"

section \<open>utils: getScoreHistory\<close>

text \<open>
  \<open>localStorage\<close> maps a key to the text stored under it. \<open>JSON.parse\<close> is the
  parser of the JSON grammar (ECMA-404): white space is tab, line feed, carriage return
  and space; a number is kept as its token and a string as its code units, escapes
  decoded; the members of an object are kept in the order of the text. The parser
  descends with a counter that bounds the depth of its calls; \<open>JSON_parse_fuel\<close>
  below shows that twice the length of the text plus two is never used up, so that the
  last case of \<open>JSON_parse\<close> does not occur.
\<close>

datatype json =
    JNull
  | JBool bool
  | JNumber string
  | JString "nat list"
  | JArray "json list"
  | JObject "(nat list \<times> json) list"

datatype 'a parsed = Ok 'a string | Err | Fuel

definition isJSONWhiteSpace :: "char \<Rightarrow> bool" where
  "isJSONWhiteSpace c \<longleftrightarrow> c = CHR 0x09 \<or> c = CHR 0x0A \<or> c = CHR 0x0D \<or> c = CHR 0x20"

definition skip_ws :: "string \<Rightarrow> string" where
  "skip_ws cs = dropWhile isJSONWhiteSpace cs"

definition isDigit :: "char \<Rightarrow> bool" where
  "isDigit c \<longleftrightarrow> c \<in> set ''0123456789''"

fun digit_of :: "string \<Rightarrow> char \<Rightarrow> nat" where
  "digit_of [] c = 0"
| "digit_of (d # ds) c = (if c = d then 0 else Suc (digit_of ds c))"

definition isHexDigit :: "char \<Rightarrow> bool" where
  "isHexDigit c \<longleftrightarrow> c \<in> set ''0123456789abcdefABCDEF''"

definition hexval :: "char \<Rightarrow> nat" where
  "hexval c = (if c \<in> set ''0123456789abcdef'' then digit_of ''0123456789abcdef'' c
               else 10 + digit_of ''ABCDEF'' c)"

definition escape :: "char \<Rightarrow> nat option" where
  "escape e =
     (if e = CHR 0x22 then Some 0x22 else if e = CHR 0x5C then Some 0x5C
      else if e = CHR ''/'' then Some 0x2F else if e = CHR ''b'' then Some 0x08
      else if e = CHR ''f'' then Some 0x0C else if e = CHR ''n'' then Some 0x0A
      else if e = CHR ''r'' then Some 0x0D else if e = CHR ''t'' then Some 0x09
      else None)"

fun parse_chars :: "string \<Rightarrow> nat list \<Rightarrow> (nat list \<times> string) option" where
  "parse_chars [] acc = None"
| "parse_chars (c # cs) acc =
     (if c = CHR 0x22 then Some (acc, cs)
      else if c = CHR 0x5C then
        (case cs of
           [] \<Rightarrow> None
         | e # cs' \<Rightarrow>
             if e = CHR ''u'' then
               (case cs' of
                  h1 # h2 # h3 # h4 # cs'' \<Rightarrow>
                    if isHexDigit h1 \<and> isHexDigit h2 \<and> isHexDigit h3 \<and> isHexDigit h4
                    then parse_chars cs''
                           (acc @ [((hexval h1 * 16 + hexval h2) * 16 + hexval h3) * 16 + hexval h4])
                    else None
                | _ \<Rightarrow> None)
             else (case escape e of None \<Rightarrow> None | Some u \<Rightarrow> parse_chars cs' (acc @ [u])))
      else if (of_char c :: nat) < 0x20 then None
      else parse_chars cs (acc @ [of_char c]))"

definition digits1 :: "string \<Rightarrow> (string \<times> string) option" where
  \<comment> \<open>one digit or more\<close>
  "digits1 cs = (if takeWhile isDigit cs = [] then None
                 else Some (takeWhile isDigit cs, dropWhile isDigit cs))"

definition parse_number :: "string \<Rightarrow> (string \<times> string) option" where
  "parse_number cs =
     (let (sign, r0) = (case cs of c # r \<Rightarrow> if c = CHR ''-'' then ([c], r) else ([], cs)
                                 | [] \<Rightarrow> ([], cs))
      in case (case r0 of
                 [] \<Rightarrow> None
               | d # r \<Rightarrow> if d = CHR ''0'' then Some ([d], r) else digits1 r0) of
           None \<Rightarrow> None
         | Some (ip, r1) \<Rightarrow>
             (case (case r1 of
                      [] \<Rightarrow> Some ([], r1)
                    | p # r \<Rightarrow>
                        if p = CHR ''.''
                        then (case digits1 r of None \<Rightarrow> None | Some (ds, r') \<Rightarrow> Some (p # ds, r'))
                        else Some ([], r1)) of
                None \<Rightarrow> None
              | Some (fp, r2) \<Rightarrow>
                  (case (case r2 of
                           [] \<Rightarrow> Some ([], r2)
                         | e # r \<Rightarrow>
                             if e = CHR ''e'' \<or> e = CHR ''E''
                             then (case r of
                                     [] \<Rightarrow> None
                                   | g # r' \<Rightarrow>
                                       if g = CHR ''+'' \<or> g = CHR ''-''
                                       then (case digits1 r' of None \<Rightarrow> None
                                             | Some (ds, r'') \<Rightarrow> Some (e # g # ds, r''))
                                       else (case digits1 r of None \<Rightarrow> None
                                             | Some (ds, r'') \<Rightarrow> Some (e # ds, r'')))
                             else Some ([], r2)) of
                     None \<Rightarrow> None
                   | Some (ep, r3) \<Rightarrow> Some (sign @ ip @ fp @ ep, r3))))"

fun parse_value :: "nat \<Rightarrow> string \<Rightarrow> json parsed"
  and parse_elements :: "nat \<Rightarrow> string \<Rightarrow> json list \<Rightarrow> json parsed"
  and parse_members :: "nat \<Rightarrow> string \<Rightarrow> (nat list \<times> json) list \<Rightarrow> json parsed"
where
  "parse_value 0 cs = Fuel"
| "parse_value (Suc n) cs =
     (case skip_ws cs of
        [] \<Rightarrow> Err
      | c # rest \<Rightarrow>
          if c = CHR ''['' then
            (case skip_ws rest of
               [] \<Rightarrow> Err
             | d # rest' \<Rightarrow> if d = CHR '']'' then Ok (JArray []) rest'
                            else parse_elements n rest [])
          else if c = CHR ''{'' then
            (case skip_ws rest of
               [] \<Rightarrow> Err
             | d # rest' \<Rightarrow> if d = CHR ''}'' then Ok (JObject []) rest'
                            else parse_members n rest [])
          else if c = CHR 0x22 then
            (case parse_chars rest [] of None \<Rightarrow> Err | Some (s, rest') \<Rightarrow> Ok (JString s) rest')
          else if c = CHR ''-'' \<or> isDigit c then
            (case parse_number (c # rest) of
               None \<Rightarrow> Err | Some (lexeme, rest') \<Rightarrow> Ok (JNumber lexeme) rest')
          else if take 4 (c # rest) = ''null'' then Ok JNull (drop 4 (c # rest))
          else if take 4 (c # rest) = ''true'' then Ok (JBool True) (drop 4 (c # rest))
          else if take 5 (c # rest) = ''false'' then Ok (JBool False) (drop 5 (c # rest))
          else Err)"
| "parse_elements 0 cs acc = Fuel"
| "parse_elements (Suc n) cs acc =
     (case parse_value n cs of
        Ok v rest \<Rightarrow>
          (case skip_ws rest of
             [] \<Rightarrow> Err
           | d # rest' \<Rightarrow>
               if d = CHR '','' then parse_elements n rest' (acc @ [v])
               else if d = CHR '']'' then Ok (JArray (acc @ [v])) rest'
               else Err)
      | Err \<Rightarrow> Err
      | Fuel \<Rightarrow> Fuel)"
| "parse_members 0 cs acc = Fuel"
| "parse_members (Suc n) cs acc =
     (case skip_ws cs of
        [] \<Rightarrow> Err
      | q # rest \<Rightarrow>
          if q \<noteq> CHR 0x22 then Err
          else (case parse_chars rest [] of
                  None \<Rightarrow> Err
                | Some (k, rest1) \<Rightarrow>
                    (case skip_ws rest1 of
                       [] \<Rightarrow> Err
                     | colon # rest2 \<Rightarrow>
                         if colon \<noteq> CHR '':'' then Err
                         else (case parse_value n rest2 of
                                 Ok v rest3 \<Rightarrow>
                                   (case skip_ws rest3 of
                                      [] \<Rightarrow> Err
                                    | d # rest4 \<Rightarrow>
                                        if d = CHR '','' then parse_members n rest4 (acc @ [(k, v)])
                                        else if d = CHR ''}'' then Ok (JObject (acc @ [(k, v)])) rest4
                                        else Err)
                               | Err \<Rightarrow> Err
                               | Fuel \<Rightarrow> Fuel))))"

definition JSON_parse :: "string \<Rightarrow> JSError + json" where
  "JSON_parse source =
     (case parse_value (2 * length source + 2) source of
        Ok v rest \<Rightarrow> if skip_ws rest = [] then Inr v else Inl SyntaxError
      | Err \<Rightarrow> Inl SyntaxError
      | Fuel \<Rightarrow> Inl SyntaxError)"

type_synonym storage = "string \<rightharpoonup> string"

definition getScoreHistory :: "storage \<Rightarrow> JSError + json" where
  "getScoreHistory localStorage =
     JSON_parse (case localStorage ''typing_scores'' of
                   None \<Rightarrow> ''[]''
                 | Some item \<Rightarrow> if item = [] then ''[]'' else item)"

section \<open>Properties of the rounding\<close>

lemma of_int_le_pow2: "(c::int) \<le> 2 ^ n \<Longrightarrow> (of_int c :: rat) \<le> 2 ^ n"
  by (metis of_int_le_iff of_int_numeral of_int_power)

lemma pow2_le_of_int: "2 ^ n \<le> (c::int) \<Longrightarrow> 2 ^ n \<le> (of_int c :: rat)"
  by (metis of_int_le_iff of_int_numeral of_int_power)

lemma ilog2_bounds:
  assumes "0 < q"
  shows "2 powi (ilog2 q) \<le> q" and "q < 2 powi (ilog2 q + 1)"
proof -
  have "2 powi (ilog2 q) \<le> q \<and> q < 2 powi (ilog2 q + 1)"
  proof (cases "1 \<le> q")
    case True
    define n where "n = \<lfloor>q\<rfloor>"
    have n1: "1 \<le> n" using True by (simp add: n_def le_floor_iff)
    then have n0: "0 < n" by simp
    have bl: "1 \<le> bitlen n" using n0 by (simp add: bitlen_alt_def)
    from bitlen_bounds [OF n0]
    have lo: "2 ^ nat (bitlen n - 1) \<le> n" and hi: "n < 2 ^ nat (bitlen n)" by simp_all
    have e: "ilog2 q = bitlen n - 1" using True by (simp add: ilog2_def n_def)
    have "(2::rat) powi (bitlen n - 1) = 2 ^ nat (bitlen n - 1)"
      using bl by (simp add: power_int_nonneg_exp)
    also have "\<dots> \<le> of_int n" using lo by (rule pow2_le_of_int)
    also have "\<dots> \<le> q" by (simp add: n_def)
    finally have A: "2 powi (ilog2 q) \<le> q" by (simp add: e)
    have "n + 1 \<le> 2 ^ nat (bitlen n)" using hi by simp
    then have "(of_int (n + 1) :: rat) \<le> 2 ^ nat (bitlen n)"
      by (rule of_int_le_pow2)
    moreover have "q < of_int (n + 1)" unfolding n_def by linarith
    ultimately have "q < 2 ^ nat (bitlen n)" by linarith
    also have "\<dots> = 2 powi (bitlen n)"
      using bl by (simp add: power_int_nonneg_exp)
    finally have B: "q < 2 powi (ilog2 q + 1)" by (simp add: e)
    from A B show ?thesis ..
  next
    case False
    define r where "r = 1 / q"
    define c where "c = \<lceil>r\<rceil>"
    define k where "k = bitlen (c - 1)"
    have r1: "1 < r" using False assms by (simp add: r_def)
    have c2: "2 \<le> c" using r1 unfolding c_def by linarith
    then have c0: "0 < c - 1" by simp
    have k1: "1 \<le> k" using c0 by (simp add: k_def bitlen_alt_def)
    from bitlen_bounds [OF c0]
    have lo: "2 ^ nat (k - 1) \<le> c - 1" and hi: "c - 1 < 2 ^ nat k" by (simp_all add: k_def)
    have e: "ilog2 q = - k" using False by (simp add: ilog2_def k_def c_def r_def)
    have "c \<le> 2 ^ nat k" using hi by simp
    then have "(of_int c :: rat) \<le> 2 ^ nat k" by (rule of_int_le_pow2)
    moreover have "r \<le> of_int c" unfolding c_def by linarith
    ultimately have "r \<le> 2 ^ nat k" by linarith
    then have "1 / q \<le> 2 ^ nat k" by (simp add: r_def)
    then have "1 \<le> 2 ^ nat k * q" using assms by (simp add: field_simps)
    then have "1 / 2 ^ nat k \<le> q" by (simp add: field_simps)
    moreover have "(2::rat) powi (- k) = 1 / 2 ^ nat k"
      using k1 by (simp add: power_int_minus power_int_nonneg_exp field_simps)
    ultimately have A: "2 powi (ilog2 q) \<le> q" by (simp add: e)
    have "2 ^ nat (k - 1) \<le> (of_int (c - 1) :: rat)"
      using lo by (rule pow2_le_of_int)
    moreover have "of_int (c - 1) < r" unfolding c_def by linarith
    ultimately have "2 ^ nat (k - 1) < r" by linarith
    then have "2 ^ nat (k - 1) < 1 / q" by (simp add: r_def)
    then have "q * 2 ^ nat (k - 1) < 1" using assms by (simp add: field_simps)
    then have "q < 1 / 2 ^ nat (k - 1)" by (simp add: field_simps)
    moreover have "(2::rat) powi (- k + 1) = 1 / 2 ^ nat (k - 1)"
    proof -
      have "- k + 1 = - (k - 1)" by simp
      then have "(2::rat) powi (- k + 1) = inverse (2 powi (k - 1))"
        by (simp only: power_int_minus)
      then show ?thesis using k1 by (simp add: power_int_nonneg_exp field_simps)
    qed
    ultimately have B: "q < 2 powi (ilog2 q + 1)" by (simp add: e)
    from A B show ?thesis ..
  qed
  then show "2 powi (ilog2 q) \<le> q" and "q < 2 powi (ilog2 q + 1)" by simp_all
qed

lemma round_even_error: "\<bar>of_int (round_even x) - x\<bar> \<le> 1 / 2"
proof -
  define f where "f = \<lfloor>x\<rfloor>"
  have "of_int f \<le> x" "x < of_int f + 1" unfolding f_def by linarith+
  then show ?thesis
    unfolding round_even_def Let_def f_def [symmetric] by (auto simp: abs_le_iff)
qed

lemma round_even_of_int: "round_even (of_int k) = k"
  by (simp add: round_even_def)

lemma round_even_nonneg: "0 \<le> x \<Longrightarrow> 0 \<le> round_even x"
  unfolding round_even_def Let_def by auto


lemma ulp_pos: "0 < ulp q"
  by (simp add: ulp_def)

lemma fl_pos_eq: "0 < q \<Longrightarrow> fl q = of_int (round_even (q / ulp q)) * ulp q"
  by (simp add: fl_def)

lemma fl_error:
  assumes "0 < q"
  shows "\<bar>fl q - q\<bar> \<le> ulp q / 2"
proof -
  define u where "u = ulp q"
  have u: "0 < u" by (simp add: u_def ulp_pos)
  define k where "k = round_even (q / u)"
  have "\<bar>of_int k - q / u\<bar> \<le> 1 / 2" unfolding k_def by (rule round_even_error)
  then have "\<bar>of_int k - q / u\<bar> * u \<le> 1 / 2 * u"
    using u by (intro mult_right_mono) simp_all
  moreover have "\<bar>of_int k - q / u\<bar> * u = \<bar>of_int k * u - q\<bar>"
  proof -
    have "\<bar>of_int k - q / u\<bar> * u = \<bar>(of_int k - q / u) * u\<bar>"
      using u by (simp add: abs_mult)
    also have "(of_int k - q / u) * u = of_int k * u - q"
      using u by (simp add: field_simps)
    finally show ?thesis .
  qed
  ultimately show ?thesis
    using assms by (simp add: fl_pos_eq u_def [symmetric] k_def [symmetric])
qed

lemma fl_nonneg: "0 \<le> q \<Longrightarrow> 0 \<le> fl q"
proof (cases "q = 0")
  case True
  then show ?thesis by (simp add: fl_def)
next
  case False
  assume "0 \<le> q"
  with False have q: "0 < q" by simp
  have "0 \<le> q / ulp q" using q ulp_pos [of q] by simp
  then have "0 \<le> round_even (q / ulp q)" by (rule round_even_nonneg)
  then show ?thesis using q ulp_pos [of q] by (simp add: fl_pos_eq)
qed

lemma pow2i_less_cancel: "(2::rat) powi a < 2 powi b \<Longrightarrow> a < b"
proof (rule ccontr)
  assume less: "(2::rat) powi a < 2 powi b" and "\<not> a < b"
  then have "b \<le> a" by simp
  then have "(2::rat) powi b \<le> 2 powi a" by (rule power_int_increasing) simp
  with less show False by simp
qed

lemma ilog2_ge:
  assumes "0 < q" and "2 powi e \<le> q"
  shows "e \<le> ilog2 q"
proof -
  have "(2::rat) powi e < 2 powi (ilog2 q + 1)"
    using assms ilog2_bounds(2) [OF assms(1)] by linarith
  then have "e < ilog2 q + 1" by (rule pow2i_less_cancel)
  then show ?thesis by simp
qed

lemma ilog2_less:
  assumes "0 < q" and "q < 2 powi e"
  shows "ilog2 q < e"
proof -
  have "(2::rat) powi (ilog2 q) < 2 powi e"
    using assms ilog2_bounds(1) [OF assms(1)] by linarith
  then show ?thesis by (rule pow2i_less_cancel)
qed

lemma ulp_normal:
  assumes "0 < q" and "2 powi (- 1022) \<le> q"
  shows "ulp q = 2 powi (ilog2 q) / 2 ^ 52"
proof -
  have "- 1022 \<le> ilog2 q" using assms by (rule ilog2_ge)
  then have "ulp q = 2 powi (ilog2 q - 52)" by (simp add: ulp_def max_def)
  also have "\<dots> = 2 powi (ilog2 q) / 2 ^ 52"
    by (simp add: power_int_diff)
  finally show ?thesis .
qed

lemma fl_rel_error:
  assumes "0 < q" and "2 powi (- 1022) \<le> q"
  shows "\<bar>fl q - q\<bar> \<le> q / 2 ^ 53"
proof -
  have "ulp q \<le> q / 2 ^ 52"
    using ilog2_bounds(1) [OF assms(1)] by (simp add: ulp_normal [OF assms] divide_right_mono)
  then show ?thesis using fl_error [OF assms(1)] by simp
qed

lemma fl_of_int_exact:
  assumes "0 \<le> n" and "n < 2 ^ 53"
  shows "fl (of_int n) = of_int n"
proof (cases "n = 0")
  case True
  then show ?thesis by (simp add: fl_def)
next
  case False
  define q :: rat where "q = of_int n"
  have n1: "1 \<le> n" using False assms by simp
  have q1: "1 \<le> q" using n1 by (simp add: q_def)
  then have q0: "0 < q" by simp
  define e where "e = ilog2 q"
  have "(2::rat) powi 0 \<le> q" using q1 by simp
  then have e0: "0 \<le> e" unfolding e_def using q0 by (intro ilog2_ge)
  have "q < 2 ^ 53" using assms(2) unfolding q_def
    by (metis of_int_less_iff of_int_numeral of_int_power)
  then have "q < 2 powi 53" by simp
  then have e53: "e < 53" unfolding e_def using q0 by (intro ilog2_less)
  define m where "m = nat (52 - e)"
  have "ulp q = 2 powi (e - 52)" using e0 by (simp add: ulp_def e_def max_def)
  also have "e - 52 = - int m" using e53 by (simp add: m_def)
  also have "(2::rat) powi (- int m) = 1 / 2 ^ m"
    by (simp add: power_int_minus field_simps)
  finally have u: "ulp q = 1 / 2 ^ m" .
  have "q / ulp q = q * 2 ^ m" by (simp add: u)
  also have "\<dots> = of_int (n * 2 ^ m)" by (simp add: q_def)
  finally have "round_even (q / ulp q) = n * 2 ^ m" by (simp only: round_even_of_int)
  then have "fl q = of_int (n * 2 ^ m) * (1 / 2 ^ m)" using q0 by (simp add: fl_pos_eq u)
  also have "\<dots> = q" by (simp add: q_def)
  finally show ?thesis by (simp add: q_def)
qed

lemma fl_of_nat_exact: "n < 2 ^ 53 \<Longrightarrow> fl (of_nat n) = of_nat n"
  using fl_of_int_exact [of "int n"] by simp

lemma ulp_le:
  assumes "0 < q"
  shows "ulp q \<le> max (q / 2 ^ 52) (2 powi (- 1074))"
proof (cases "- 1022 \<le> ilog2 q")
  case True
  then have "ulp q = 2 powi (ilog2 q - 52)" by (simp add: ulp_def max_def)
  also have "\<dots> = 2 powi (ilog2 q) / 2 ^ 52" by (simp add: power_int_diff)
  also have "\<dots> \<le> q / 2 ^ 52"
    using ilog2_bounds(1) [OF assms] by (simp add: divide_right_mono)
  finally show ?thesis by simp
next
  case False
  then have "ulp q = 2 powi (- 1074)" by (simp add: ulp_def max_def)
  then show ?thesis by simp
qed

lemma random_draw_le:
  assumes "random_draw r"
  shows "r \<le> 1 - 1 / 2 ^ 53"
proof (cases "r < 1 / 2")
  case True
  then show ?thesis by simp
next
  case False
  from assms have r1: "r < 1" and fixed: "fl r = r" by (simp_all add: random_draw_def)
  from False have r0: "0 < r" and half: "2 powi (- 1) \<le> r" by (simp_all add: power_int_minus)
  have "- 1 \<le> ilog2 r" using r0 half by (rule ilog2_ge)
  moreover have "ilog2 r < 0" using r0 r1 by (intro ilog2_less) simp_all
  ultimately have e: "ilog2 r = - 1" by simp
  have u: "ulp r = 1 / 2 ^ 53" by (simp add: ulp_def e power_int_minus field_simps)
  define k where "k = round_even (r / ulp r)"
  have r_eq: "r = of_int k / 2 ^ 53" using fixed r0 by (simp add: fl_pos_eq u k_def)
  then have "(of_int k :: rat) < 2 ^ 53" using r1 by simp
  then have "k < 2 ^ 53" by (metis of_int_less_iff of_int_numeral of_int_power)
  then have "k \<le> 2 ^ 53 - 1" by simp
  then have "(of_int k :: rat) \<le> of_int (2 ^ 53 - 1)" by (simp only: of_int_le_iff)
  then have "(of_int k :: rat) \<le> 2 ^ 53 - 1" by simp
  then show ?thesis by (simp add: r_eq field_simps)
qed

lemma random_index_le:
  assumes "random_draw r"
  shows "random_index r i \<le> i"
proof -
  define n :: rat where "n = of_nat (i + 1)"
  have n1: "1 \<le> n" by (simp add: n_def)
  define p where "p = r * n"
  from assms have r0: "0 \<le> r" and r1: "r < 1" by (simp_all add: random_draw_def)
  have p0: "0 \<le> p" using r0 n1 by (simp add: p_def)
  have "fl p < n"
  proof (cases "p = 0")
    case True
    then show ?thesis using n1 by (simp add: fl_def)
  next
    case False
    with p0 have pp: "0 < p" by simp
    have err: "fl p \<le> p + ulp p / 2" using fl_error [OF pp] by linarith
    have up: "ulp p \<le> max (p / 2 ^ 52) (2 powi (- 1074))" using pp by (rule ulp_le)
    have tiny: "(2::rat) powi (- 1074) \<le> 1 / 2 ^ 53"
    proof -
      have "(2::rat) powi (- 1074) \<le> 2 powi (- 53)" by (rule power_int_increasing) simp_all
      then show ?thesis by (simp add: power_int_minus field_simps)
    qed
    show ?thesis
    proof (cases "r < 1 / 2")
      case True
      then have "p \<le> n / 2" using n1 by (simp add: p_def)
      moreover have "ulp p / 2 < n / 2"
      proof -
        have "p / 2 ^ 52 \<le> n / 2" using \<open>p \<le> n / 2\<close> pp by (simp add: field_simps)
        moreover have "(2::rat) powi (- 1074) \<le> n / 2" using tiny n1 by simp
        ultimately have "ulp p \<le> n / 2" using up by (simp add: max_def split: if_splits)
        then show ?thesis using n1 by simp
      qed
      ultimately show ?thesis using err by simp
    next
      case False
      have rle: "r \<le> 1 - 1 / 2 ^ 53" using assms by (rule random_draw_le)
      then have ple: "p \<le> n * (1 - 1 / 2 ^ 53)" using n1 by (simp add: p_def mult.commute)
      have "r \<le> r * n" using mult_left_mono [of 1 n r] r0 n1 by simp
      moreover have "1 / 2 \<le> r" using False by simp
      ultimately have "1 / 2 \<le> p" unfolding p_def by linarith
      then have "2 powi (- 1022) \<le> p"
      proof -
        have "(2::rat) powi (- 1022) \<le> 2 powi (- 1)" by (rule power_int_increasing) simp_all
        also have "\<dots> = 1 / 2" by (simp add: power_int_minus)
        finally show ?thesis using \<open>1 / 2 \<le> p\<close> by simp
      qed
      from fl_rel_error [OF pp this] have "fl p \<le> p + p / 2 ^ 53"
        by linarith
      also have "\<dots> = p * (1 + 1 / 2 ^ 53)" by (simp add: field_simps)
      also have "\<dots> \<le> n * (1 - 1 / 2 ^ 53) * (1 + 1 / 2 ^ 53)"
        using ple by (intro mult_right_mono) simp_all
      also have "\<dots> < n" using n1 by (simp add: field_simps)
      finally show ?thesis .
    qed
  qed
  moreover have "0 \<le> fl p" using p0 by (rule fl_nonneg)
  ultimately have "\<lfloor>fl p\<rfloor> < int (i + 1)" unfolding n_def by (simp add: floor_less_iff)
  then show ?thesis
    by (simp add: random_index_def Math_floor_def p_def n_def)
qed

lemma round_stable:
  fixes x y :: rat and D N :: int
  assumes D: "0 < D" and grid: "(x + 1 / 2) * of_int D = of_int N"
    and close: "\<bar>y - x\<bar> < 1 / of_int D"
  shows "frac x \<noteq> 1 / 2 \<Longrightarrow> \<lfloor>y + 1 / 2\<rfloor> = round x"
    and "\<lfloor>y + 1 / 2\<rfloor> = round x - 1 \<or> \<lfloor>y + 1 / 2\<rfloor> = round x"
proof -
  define z where "z = x + 1 / 2"
  define k where "k = \<lfloor>z\<rfloor>"
  have k: "round x = k" by (simp add: round_def k_def z_def)
  have dpos: "(0::rat) < of_int D" using D by simp
  have zk: "of_int k \<le> z" "z < of_int k + 1" unfolding k_def by linarith+
  have yz: "z - 1 / of_int D < y + 1 / 2" "y + 1 / 2 < z + 1 / of_int D"
    using close unfolding z_def by linarith+
  have one_le: "1 / of_int D \<le> (1::rat)" using D by simp
  have up: "z + 1 / of_int D \<le> of_int k + 1"
  proof -
    have "(of_int k + 1 - z) * of_int D = of_int ((k + 1) * D - N)"
      using grid by (simp add: z_def algebra_simps)
    moreover have "0 < (of_int k + 1 - z) * of_int D" using zk(2) dpos by simp
    ultimately have "(0::rat) < of_int ((k + 1) * D - N)" by simp
    then have "0 < (k + 1) * D - N" by (simp only: of_int_0_less_iff)
    then have "1 \<le> (k + 1) * D - N" by linarith
    then have "(1::rat) \<le> of_int ((k + 1) * D - N)" by (simp only: of_int_1_le_iff)
    also have "\<dots> = (of_int k + 1 - z) * of_int D"
      using grid by (simp add: z_def algebra_simps)
    finally have "1 / of_int D \<le> of_int k + 1 - z" using dpos by (simp add: field_simps)
    then show ?thesis by simp
  qed
  have hi: "y + 1 / 2 < of_int k + 1" using yz(2) up by simp
  have lo1: "of_int (k - 1) \<le> y + 1 / 2" using yz(1) zk(1) one_le by simp
  show "\<lfloor>y + 1 / 2\<rfloor> = round x - 1 \<or> \<lfloor>y + 1 / 2\<rfloor> = round x"
  proof (cases "of_int k \<le> y + 1 / 2")
    case True
    then have "\<lfloor>y + 1 / 2\<rfloor> = k" using hi by (intro floor_unique) simp_all
    then show ?thesis by (simp add: k)
  next
    case False
    then have "\<lfloor>y + 1 / 2\<rfloor> = k - 1" using lo1 by (intro floor_unique) simp_all
    then show ?thesis by (simp add: k)
  qed
  show "\<lfloor>y + 1 / 2\<rfloor> = round x" if "frac x \<noteq> 1 / 2"
  proof -
    have "z \<noteq> of_int k"
    proof
      assume "z = of_int k"
      then have x: "x = of_int k - 1 / 2" by (simp add: z_def)
      have "\<lfloor>x\<rfloor> = k - 1" unfolding x by (intro floor_unique) simp_all
      then have "frac x = 1 / 2" by (simp add: frac_def x)
      with that show False by simp
    qed
    with zk(1) have gt: "0 < (z - of_int k) * of_int D" using dpos by simp
    have eq: "(z - of_int k) * of_int D = of_int (N - k * D)"
      using grid by (simp add: z_def algebra_simps)
    from gt have "(0::rat) < of_int (N - k * D)" by (simp only: eq)
    then have "0 < N - k * D" by (simp only: of_int_0_less_iff)
    then have "1 \<le> N - k * D" by linarith
    then have "(1::rat) \<le> of_int (N - k * D)" by (simp only: of_int_1_le_iff)
    then have "1 \<le> (z - of_int k) * of_int D" by (simp only: eq)
    then have "1 / of_int D \<le> z - of_int k" using dpos by (simp add: field_simps)
    then have "of_int k \<le> y + 1 / 2" using yz(1) by simp
    then have "\<lfloor>y + 1 / 2\<rfloor> = k" using hi by (intro floor_unique) simp_all
    then show ?thesis by (simp add: k)
  qed
qed

lemma two_roundings:
  fixes a m :: rat
  assumes a: "1 / 2 ^ 53 \<le> a" and m: "1 \<le> m" "m \<le> 2 ^ 53"
  shows "\<bar>fl (fl a * m) - a * m\<bar> \<le> (2 * m + 1) * a / 2 ^ 53"
proof -
  have a0: "0 < a" using a by (rule less_le_trans [rotated]) simp
  have tiny: "(2::rat) powi (- 1022) \<le> 1 / 2 ^ 54"
  proof -
    have "(2::rat) powi (- 1022) \<le> 2 powi (- 54)" by (rule power_int_increasing) simp_all
    then show ?thesis by (simp add: power_int_minus field_simps)
  qed
  have an: "2 powi (- 1022) \<le> a" using tiny a by simp
  define b where "b = fl a"
  have eb: "\<bar>b - a\<bar> \<le> a / 2 ^ 53" unfolding b_def using a0 an by (rule fl_rel_error)
  have small: "a / 2 ^ 53 \<le> a / 2" using a0 by (simp add: field_simps)
  have b_lo: "a / 2 \<le> b" using eb small by linarith
  have b_hi: "b \<le> a + a / 2 ^ 53" using eb by linarith
  define p where "p = b * m"
  have b0: "0 < b" using b_lo a0 by simp
  have p0: "0 < p" using b0 m by (simp add: p_def)
  have "b * 1 \<le> b * m" using b0 m(1) by (intro mult_left_mono) simp_all
  then have "a / 2 \<le> p" using b_lo by (simp add: p_def)
  then have pn: "2 powi (- 1022) \<le> p" using tiny a by simp
  have ep: "\<bar>fl p - p\<bar> \<le> p / 2 ^ 53" using p0 pn by (rule fl_rel_error)
  have p_hi: "p \<le> (a + a / 2 ^ 53) * m"
    unfolding p_def using b_hi m(1) by (intro mult_right_mono) simp_all
  have "(a + a / 2 ^ 53) * m = a * m + a * m / 2 ^ 53" by (simp add: algebra_simps)
  also have "a * m / 2 ^ 53 \<le> a * 2 ^ 53 / 2 ^ 53"
    using m(2) a0 by (intro divide_right_mono mult_left_mono) simp_all
  finally have p_hi2: "p \<le> a * m + a" using p_hi by simp
  have "\<bar>p - a * m\<bar> = \<bar>b - a\<bar> * m"
  proof -
    have "p - a * m = (b - a) * m" by (simp add: p_def algebra_simps)
    then show ?thesis using m(1) by (simp add: abs_mult)
  qed
  also have "\<dots> \<le> a / 2 ^ 53 * m" using eb m(1) by (intro mult_right_mono) simp_all
  finally have e1: "\<bar>p - a * m\<bar> \<le> m * a / 2 ^ 53" by (simp add: mult.commute)
  have "p / 2 ^ 53 \<le> (a * m + a) / 2 ^ 53" using p_hi2 by (intro divide_right_mono) simp_all
  then have e2: "\<bar>fl p - p\<bar> \<le> (m + 1) * a / 2 ^ 53" using ep by (simp add: algebra_simps)
  have "\<bar>fl p - a * m\<bar> \<le> \<bar>fl p - p\<bar> + \<bar>p - a * m\<bar>" by linarith
  also have "\<dots> \<le> (m + 1) * a / 2 ^ 53 + m * a / 2 ^ 53" using e1 e2 by linarith
  also have "\<dots> = (2 * m + 1) * a / 2 ^ 53" by (simp add: algebra_simps add_divide_distrib)
  finally show ?thesis by (simp add: p_def b_def)
qed

lemma round_of_rounded:
  fixes c d :: int and m :: rat and M :: int
  assumes c: "1 \<le> c" and d: "0 < d" "d < 2 ^ 53"
    and m: "m = of_int M" "1 \<le> M" "M \<le> 100"
    and small: "(4 * M + 2) * c < 2 ^ 53"
  defines "x \<equiv> of_int c / of_int d * m"
  shows "frac x \<noteq> 1 / 2 \<Longrightarrow> Math_round (fl (fl (of_int c / of_int d) * m)) = round x"
    and "Math_round (fl (fl (of_int c / of_int d) * m)) = round x - 1
       \<or> Math_round (fl (fl (of_int c / of_int d) * m)) = round x"
proof -
  define a :: rat where "a = of_int c / of_int d"
  define y where "y = fl (fl a * m)"
  have dr: "(0::rat) < of_int d" "(of_int d :: rat) < 2 ^ 53"
    using d by (simp, metis of_int_less_iff of_int_numeral of_int_power)
  have cr: "(1::rat) \<le> of_int c" using c by simp
  have "1 / 2 ^ 53 \<le> 1 / (of_int d :: rat)" using dr by (intro divide_left_mono) simp_all
  also have "\<dots> \<le> a" unfolding a_def using cr dr(1) by (intro divide_right_mono) simp_all
  finally have a53: "1 / 2 ^ 53 \<le> a" .
  have mr: "1 \<le> m" "m \<le> 2 ^ 53" using m by simp_all
  have err: "\<bar>y - a * m\<bar> \<le> (2 * m + 1) * a / 2 ^ 53"
    unfolding y_def using a53 mr by (rule two_roundings)
  have "(of_int ((4 * M + 2) * c) :: rat) < 2 ^ 53"
    using small by (metis of_int_less_iff of_int_numeral of_int_power)
  then have "(2 * m + 1) * of_int c * 2 < 2 ^ 53" by (simp add: m(1) algebra_simps)
  then have "(2 * m + 1) * of_int c / 2 ^ 53 < 1 / 2" by (simp add: field_simps)
  then have "(2 * m + 1) * of_int c / 2 ^ 53 / of_int d < 1 / 2 / of_int d"
    using dr(1) by (intro divide_strict_right_mono) simp_all
  then have "(2 * m + 1) * a / 2 ^ 53 < 1 / of_int (2 * d)"
    by (simp add: a_def field_simps)
  with err have close: "\<bar>y - x\<bar> < 1 / of_int (2 * d)" by (simp add: x_def a_def)
  have grid: "(x + 1 / 2) * of_int (2 * d) = of_int (2 * M * c + d)"
    using dr(1) by (simp add: x_def m(1) field_simps)
  have D: "0 < 2 * d" using d by simp
  show "Math_round (fl (fl (of_int c / of_int d) * m)) = round x" if "frac x \<noteq> 1 / 2"
    using round_stable(1) [OF D grid close that] by (simp add: Math_round_def y_def a_def)
  show "Math_round (fl (fl (of_int c / of_int d) * m)) = round x - 1
       \<or> Math_round (fl (fl (of_int c / of_int d) * m)) = round x"
    using round_stable(2) [OF D grid close] by (simp add: Math_round_def y_def a_def)
qed

lemma Math_round_0: "Math_round 0 = 0"
  unfolding Math_round_def by (intro floor_unique) simp_all

lemma calculateWPM_zero: "calculateWPM 0 t = 0"
  by (simp add: calculateWPM_def fl_def Math_round_0)

lemma calculateWPM_round:
  fixes c t :: int
  assumes "0 \<le> c" "c < 2 ^ 44" "0 < t" "t < 2 ^ 53"
  shows "frac (of_int c / of_int t * 60 :: rat) \<noteq> 1 / 2 \<Longrightarrow>
           calculateWPM (of_int c) (of_int t) = round (of_int c / of_int t * 60 :: rat)"
    and "calculateWPM (of_int c) (of_int t) = round (of_int c / of_int t * 60 :: rat) - 1
       \<or> calculateWPM (of_int c) (of_int t) = round (of_int c / of_int t * 60 :: rat)"
proof -
  have eq: "calculateWPM (of_int c) (of_int t)
          = Math_round (fl (fl (of_int c / of_int t) * 60))"
    using assms(3) by (simp add: calculateWPM_def)
  show "calculateWPM (of_int c) (of_int t) = round (of_int c / of_int t * 60 :: rat) - 1
       \<or> calculateWPM (of_int c) (of_int t) = round (of_int c / of_int t * 60 :: rat)"
  proof (cases "c = 0")
    case True
    then show ?thesis by (simp add: calculateWPM_zero)
  next
    case False
    with assms have "1 \<le> c" "(4 * 60 + 2) * c < 2 ^ 53" by simp_all
    from round_of_rounded(2) [OF this(1) assms(3,4) _ _ _ this(2), of 60]
    show ?thesis by (simp add: eq)
  qed
  show "calculateWPM (of_int c) (of_int t) = round (of_int c / of_int t * 60 :: rat)"
    if "frac (of_int c / of_int t * 60 :: rat) \<noteq> 1 / 2"
  proof (cases "c = 0")
    case True
    then show ?thesis by (simp add: calculateWPM_zero)
  next
    case False
    with assms have "1 \<le> c" "(4 * 60 + 2) * c < 2 ^ 53" by simp_all
    from round_of_rounded(1) [OF this(1) assms(3,4) _ _ _ this(2), of 60] that
    show ?thesis by (simp add: eq)
  qed
qed

lemma calculateAccuracy_round:
  fixes c i :: int
  assumes "0 \<le> c" "c < 2 ^ 44" "0 \<le> i" "i < 2 ^ 44" "0 < c + i"
  shows "frac (of_int c / of_int (c + i) * 100 :: rat) \<noteq> 1 / 2 \<Longrightarrow>
           calculateAccuracy (of_int c) (of_int i) = round (of_int c / of_int (c + i) * 100 :: rat)"
    and "calculateAccuracy (of_int c) (of_int i) = round (of_int c / of_int (c + i) * 100 :: rat) - 1
       \<or> calculateAccuracy (of_int c) (of_int i) = round (of_int c / of_int (c + i) * 100 :: rat)"
proof -
  have lt: "c + i < 2 ^ 53" using assms by simp
  have "fl (of_int c + of_int i) = fl (of_int (c + i))" by simp
  also have "\<dots> = of_int (c + i)" using assms(5) lt by (intro fl_of_int_exact) simp_all
  finally have total: "fl (of_int c + of_int i) = of_int (c + i)" .
  have eq: "calculateAccuracy (of_int c) (of_int i)
          = Math_round (fl (fl (of_int c / of_int (c + i)) * 100))"
    using assms(5) unfolding calculateAccuracy_def Let_def total by simp
  have z: "calculateAccuracy (of_int c) (of_int i) = 0" if "c = 0"
    unfolding eq using that by (simp add: fl_def Math_round_0)
  show "calculateAccuracy (of_int c) (of_int i) = round (of_int c / of_int (c + i) * 100 :: rat) - 1
       \<or> calculateAccuracy (of_int c) (of_int i) = round (of_int c / of_int (c + i) * 100 :: rat)"
  proof (cases "c = 0")
    case True
    from z [OF True] True show ?thesis by simp
  next
    case False
    with assms have "1 \<le> c" "(4 * 100 + 2) * c < 2 ^ 53" by simp_all
    from round_of_rounded(2) [OF this(1) assms(5) lt _ _ _ this(2), of 100]
    show ?thesis by (simp add: eq)
  qed
  show "calculateAccuracy (of_int c) (of_int i) = round (of_int c / of_int (c + i) * 100 :: rat)"
    if "frac (of_int c / of_int (c + i) * 100 :: rat) \<noteq> 1 / 2"
  proof (cases "c = 0")
    case True
    from z [OF True] True show ?thesis by simp
  next
    case False
    with assms have "1 \<le> c" "(4 * 100 + 2) * c < 2 ^ 53" by simp_all
    from round_of_rounded(1) [OF this(1) assms(5) lt _ _ _ this(2), of 100] that
    show ?thesis by (simp add: eq)
  qed
qed


section \<open>shuffleArray\<close>

lemma length_swap: "length (swap a i j) = length a"
  by (simp add: swap_def)

lemma mset_swap_in_range: "i < length a \<Longrightarrow> j < length a \<Longrightarrow> mset (swap a i j) = mset a"
  unfolding swap_def by (simp add: mset_swap)

lemma length_shuffle_loop: "length (shuffle_loop rnd k a) = length a"
  by (induction k arbitrary: a) (simp_all add: length_swap)

lemma length_shuffleArray: "length (shuffleArray rnd xs) = length xs"
  by (simp add: shuffleArray_def length_shuffle_loop)

lemma mset_shuffle_loop:
  assumes "\<forall>i. random_draw (rnd i)"
  shows "k < length a \<Longrightarrow> mset (shuffle_loop rnd k a) = mset a"
proof (induction k arbitrary: a)
  case 0
  then show ?case by simp
next
  case (Suc k)
  have j: "random_index (rnd (Suc k)) (Suc k) < length a"
    using random_index_le [of "rnd (Suc k)" "Suc k"] assms Suc.prems by simp
  have "mset (swap a (Suc k) (random_index (rnd (Suc k)) (Suc k))) = mset a"
    using Suc.prems j by (intro mset_swap_in_range)
  moreover have "k < length (swap a (Suc k) (random_index (rnd (Suc k)) (Suc k)))"
    using Suc.prems by (simp add: length_swap)
  ultimately show ?case using Suc.IH by simp
qed

lemma shuffle_loop_foldl:
  "shuffle_loop rnd k a =
     foldl (\<lambda>a i. swap a i (random_index (rnd i) i)) a (rev [1..<Suc k])"
  by (induction k arbitrary: a) simp_all

lemma shuffle_loop_store_eq:
  "r < length h \<Longrightarrow> shuffle_loop_store rnd k r h = h[r := shuffle_loop rnd k (h ! r)]"
  by (induction k arbitrary: h) simp_all

lemma mset_shuffleArray:
  assumes "\<forall>i. random_draw (rnd i)"
  shows "mset (shuffleArray rnd xs) = mset xs"
proof (cases xs)
  case Nil
  then show ?thesis by (simp add: shuffleArray_def)
next
  case (Cons x ys)
  then show ?thesis unfolding shuffleArray_def by (intro mset_shuffle_loop [OF assms]) simp
qed

text \<open>
  Claim C8. For every input list and every sequence of values that \<open>Math.random()\<close>
  can return, \<open>shuffleArray\<close> returns a permutation of its input: the same multiset
  of elements. The result is that of one Fisher-Yates pass: for \<open>i\<close> from the last
  index down to 1, position \<open>i\<close> is swapped with the drawn index, and the drawn index
  is in \<open>[0, i]\<close>.
\<close>

theorem shuffleArray_permutation:
  assumes "\<forall>i. random_draw (rnd i)"
  shows "mset (shuffleArray rnd xs) = mset xs
       \<and> shuffleArray rnd xs =
           foldl (\<lambda>a i. swap a i (random_index (rnd i) i)) xs (rev [1..<length xs])
       \<and> (\<forall>i. random_index (rnd i) i \<le> i)"
proof -
  have "rev [1..<Suc (length xs - 1)] = rev [1..<length xs]"
    by (cases xs) simp_all
  then have "shuffleArray rnd xs =
           foldl (\<lambda>a i. swap a i (random_index (rnd i) i)) xs (rev [1..<length xs])"
    by (simp add: shuffleArray_def shuffle_loop_foldl)
  moreover have "\<forall>i. random_index (rnd i) i \<le> i" using assms by (simp add: random_index_le)
  ultimately show ?thesis using mset_shuffleArray [OF assms, of xs] by blast
qed

theorem shuffleArray_permutation_witness:
  "random_draw (1 / 2)
   \<and> shuffleArray (\<lambda>i. 1 / 2) [10, 20, 30, 40 :: nat] = [10, 40, 20, 30]
   \<and> mset (shuffleArray (\<lambda>i. 1 / 2) [10, 20, 30, 40 :: nat]) = mset [10, 20, 30, 40]"
proof -
  have d: "random_draw (1 / 2)" by code_simp
  then have "\<forall>i. random_draw ((\<lambda>i. 1 / 2) i)" by simp
  from shuffleArray_permutation [OF this, of "[10, 20, 30, 40 :: nat]"]
  have "mset (shuffleArray (\<lambda>i. 1 / 2) [10, 20, 30, 40 :: nat]) = mset [10, 20, 30, 40]"
    by (rule conjunct1)
  moreover have "shuffleArray (\<lambda>i. 1 / 2) [10, 20, 30, 40 :: nat] = [10, 40, 20, 30]"
    by code_simp
  ultimately show ?thesis using d by simp
qed

text \<open>
  Claim C10. \<open>shuffleArray\<close> never mutates its argument: after the call the argument
  array, and every other array that existed before, holds what it held before; the
  function returns a newly allocated array, different from its argument, which holds the
  shuffled copy.
\<close>

theorem shuffleArray_store_frame:
  assumes "array < length h"
  shows "fst (shuffleArray_store rnd array h) ! array = h ! array
       \<and> take (length h) (fst (shuffleArray_store rnd array h)) = h
       \<and> snd (shuffleArray_store rnd array h) = length h
       \<and> snd (shuffleArray_store rnd array h) \<noteq> array
       \<and> fst (shuffleArray_store rnd array h) ! snd (shuffleArray_store rnd array h)
           = shuffleArray rnd (h ! array)"
  using assms
  by (simp add: shuffleArray_store_def Let_def shuffle_loop_store_eq shuffleArray_def
      nth_append)

theorem shuffleArray_store_frame_witness:
  "(0::nat) < length [[10, 20, 30 :: nat]]
   \<and> fst (shuffleArray_store (\<lambda>i. 1 / 2) 0 [[10, 20, 30 :: nat]]) ! 0 = [10, 20, 30]
   \<and> snd (shuffleArray_store (\<lambda>i. 1 / 2) 0 [[10, 20, 30 :: nat]]) = 1"
  using shuffleArray_store_frame [of 0 "[[10, 20, 30 :: nat]]" "\<lambda>i. 1 / 2"] by simp


section \<open>calculateWPM and calculateAccuracy\<close>

text \<open>
  Claim C5, as stated, fails: \<open>calculateAccuracy(23, 17)\<close> is 57, while
  \<open>23 / (23 + 17) * 100\<close> is 57.5 and rounds to 58: the quotient \<open>23 / 40\<close> is not a
  binary64 value, and the product of its rounding with 100 lies below 57.5. In the same
  way \<open>calculateWPM(41, 40)\<close> is 61, while \<open>41 / 40 * 60\<close> is 61.5.
\<close>

theorem calculate_round_counterexample:
  "calculateAccuracy 23 17 = 57 \<and> round ((23::rat) / (23 + 17) * 100) = 58
   \<and> calculateWPM 41 40 = 61 \<and> round ((41::rat) / 40 * 60) = 62"
proof -
  have "calculateAccuracy 23 17 = 57" by code_simp
  moreover have "calculateWPM 41 40 = 61" by code_simp
  moreover have "round ((23::rat) / (23 + 17) * 100) = 58" by (simp add: round_def)
  moreover have "round ((41::rat) / 40 * 60) = 62" by (simp add: round_def)
  ultimately show ?thesis by simp
qed

text \<open>
  Claim C5, amended. For integer counts below \<open>2 ^ 44\<close> and an integer time below
  \<open>2 ^ 53\<close>: \<open>calculateWPM\<close> returns 0 when the time is not positive, and
  \<open>calculateAccuracy\<close> returns 0 when the two counts add up to 0. Otherwise each
  returns the rounding of the exact value \<open>c / t * 60\<close> (\<open>c / (c + i) * 100\<close>),
  unless that value lies exactly halfway between two integers, where the result is the
  rounding or one less. In particular \<open>calculateWPM(30, 60) = 30\<close> and
  \<open>calculateAccuracy(15, 5) = 75\<close>.
\<close>

theorem calculate_round:
  fixes c i t :: int
  assumes "0 \<le> c" and "c < 2 ^ 44" and "0 \<le> i" and "i < 2 ^ 44" and "t < 2 ^ 53"
  shows "(t \<le> 0 \<longrightarrow> calculateWPM (of_int c) (of_int t) = 0)
       \<and> (0 < t \<longrightarrow>
            (frac (of_int c / of_int t * 60 :: rat) \<noteq> 1 / 2 \<longrightarrow>
               calculateWPM (of_int c) (of_int t) = round (of_int c / of_int t * 60 :: rat))
          \<and> (calculateWPM (of_int c) (of_int t) = round (of_int c / of_int t * 60 :: rat) - 1
             \<or> calculateWPM (of_int c) (of_int t) = round (of_int c / of_int t * 60 :: rat)))
       \<and> (c + i = 0 \<longrightarrow> calculateAccuracy (of_int c) (of_int i) = 0)
       \<and> (0 < c + i \<longrightarrow>
            (frac (of_int c / of_int (c + i) * 100 :: rat) \<noteq> 1 / 2 \<longrightarrow>
               calculateAccuracy (of_int c) (of_int i)
                 = round (of_int c / of_int (c + i) * 100 :: rat))
          \<and> (calculateAccuracy (of_int c) (of_int i)
                 = round (of_int c / of_int (c + i) * 100 :: rat) - 1
             \<or> calculateAccuracy (of_int c) (of_int i)
                 = round (of_int c / of_int (c + i) * 100 :: rat)))
       \<and> calculateWPM 30 60 = 30 \<and> calculateAccuracy 15 5 = 75"
proof -
  have A: "t \<le> 0 \<longrightarrow> calculateWPM (of_int c) (of_int t) = 0"
    by (simp add: calculateWPM_def)
  have B: "c + i = 0 \<longrightarrow> calculateAccuracy (of_int c) (of_int i) = 0"
    using assms(1,3) by (simp add: calculateAccuracy_def fl_def)
  have C: "calculateWPM 30 60 = 30" by code_simp
  have D: "calculateAccuracy 15 5 = 75" by code_simp
  from A B C D
    calculateWPM_round [OF assms(1,2) _ assms(5)]
    calculateAccuracy_round [OF assms(1,2,3,4)]
  show ?thesis by blast
qed

theorem calculate_round_witness:
  "calculateWPM 1 15 = 4 \<and> calculateWPM 7 0 = 0 \<and> calculateAccuracy 0 0 = 0
   \<and> (calculateAccuracy 23 17 = 57 \<or> calculateAccuracy 23 17 = 58)"
proof -
  have f: "frac ((1::rat) / 15 * 60) \<noteq> 1 / 2" by (simp add: frac_def)
  have r: "round ((1::rat) / 15 * 60) = 4" by code_simp
  have r2: "round ((23::rat) / (23 + 17) * 100) = 58" by (simp add: round_def)
  from calculate_round [of 1 0 15] f r have "calculateWPM 1 15 = 4" by simp
  moreover from calculate_round [of 7 0 0] have "calculateWPM 7 0 = 0" by simp
  moreover from calculate_round [of 0 0 0] have "calculateAccuracy 0 0 = 0" by simp
  moreover from calculate_round [of 23 17 1] r2
  have "calculateAccuracy 23 17 = 57 \<or> calculateAccuracy 23 17 = 58" by simp
  ultimately show ?thesis by simp
qed

section \<open>The matched prefix\<close>

lemma lcp_Nil2: "longest_common_prefix w [] = []"
  by (cases w) simp_all

lemma lcp_take_Suc:
  "i < length t \<Longrightarrow>
   longest_common_prefix w (take (Suc i) t) =
     (if length (longest_common_prefix w (take i t)) = i \<and> i < length w \<and> t ! i = w ! i
      then longest_common_prefix w (take i t) @ [t ! i]
      else longest_common_prefix w (take i t))"
proof (induction w t arbitrary: i rule: longest_common_prefix.induct)
  case (1 x xs y ys)
  then show ?case by (cases i) auto
qed simp_all

lemma match_loop_lcp:
  "i \<le> length typed \<Longrightarrow> m = longest_common_prefix wordText (take i typed) \<Longrightarrow>
   match_loop wordText typed i m = longest_common_prefix wordText typed"
proof (induction wordText typed i m rule: match_loop.induct)
  case (1 wordText typed i m)
  show ?case
  proof (cases "i < length typed")
    case True
    have "match_loop wordText typed i m =
          match_loop wordText typed (Suc i)
            (if i < length wordText \<and> typed ! i = wordText ! i \<and> length m = i
             then m @ [typed ! i] else m)"
      using True by (subst match_loop.simps) simp
    also have "\<dots> = longest_common_prefix wordText typed"
      using True "1.prems" by (intro "1.IH") (auto simp: lcp_take_Suc)
    finally show ?thesis .
  next
    case False
    with "1.prems" show ?thesis by (subst match_loop.simps) simp
  qed
qed

lemma matchPart_lcp: "matchPart wordText typed = longest_common_prefix wordText typed"
  unfolding matchPart_def by (rule match_loop_lcp) (simp_all add: lcp_Nil2)


text \<open>
  Claim C7. For every target word and draft, the matched part is the longest common
  prefix of the two: it is a prefix of both, as long as the run of equal characters
  from position 0, and where it ends before the end of both the two differ. Its length
  for \<open>hello\<close> and \<open>heLLo\<close> is 2, the later equal character \<open>o\<close> not counted.
\<close>

theorem matchPart_longest_common_prefix:
  "matchPart target draft = longest_common_prefix target draft
   \<and> matchPart target draft = take (length (matchPart target draft)) draft
   \<and> matchPart target draft = take (length (matchPart target draft)) target
   \<and> (length (matchPart target draft) < length target
        \<and> length (matchPart target draft) < length draft
      \<longrightarrow> target ! length (matchPart target draft) \<noteq> draft ! length (matchPart target draft))
   \<and> remainingPart target draft = drop (length (matchPart target draft)) target
   \<and> length (matchPart ''hello'' ''heLLo'') = 2"
proof -
  have lcp_take1: "longest_common_prefix xs ys = take (length (longest_common_prefix xs ys)) xs"
    for xs ys :: string
    by (induction xs ys rule: longest_common_prefix.induct) simp_all
  have lcp_take2: "longest_common_prefix xs ys = take (length (longest_common_prefix xs ys)) ys"
    for xs ys :: string
    by (induction xs ys rule: longest_common_prefix.induct) simp_all
  have lcp_stop: "length (longest_common_prefix xs ys) < length xs
      \<and> length (longest_common_prefix xs ys) < length ys
      \<longrightarrow> xs ! length (longest_common_prefix xs ys) \<noteq> ys ! length (longest_common_prefix xs ys)"
    for xs ys :: string
    by (induction xs ys rule: longest_common_prefix.induct) simp_all
  have ex: "length (matchPart ''hello'' ''heLLo'') = 2" by (simp add: matchPart_lcp)
  show ?thesis
    unfolding remainingPart_def
    using lcp_take1 [of target draft] lcp_take2 [of target draft] lcp_stop [of target draft] ex
    by (simp add: matchPart_lcp)
qed

theorem matchPart_longest_common_prefix_witness:
  "length (matchPart ''hello'' ''heLLo'') < length ''hello''
   \<and> length (matchPart ''hello'' ''heLLo'') < length ''heLLo''
   \<and> ''hello'' ! length (matchPart ''hello'' ''heLLo'')
       \<noteq> ''heLLo'' ! length (matchPart ''hello'' ''heLLo'')
   \<and> matchPart ''hello'' ''heLLo'' = ''he''
   \<and> remainingPart ''hello'' ''heLLo'' = ''llo''"
  using matchPart_longest_common_prefix [of "''hello''" "''heLLo''"] by simp


section \<open>handleInputChange\<close>

lemma DEFAULT_WORDS_length: "length DEFAULT_WORDS = 40"
  by (simp add: DEFAULT_WORDS_def)

lemma trim_the: "trim ''the '' = ''the''"
  by (simp add: trim_def isWhiteSpace_def)

text \<open>
  Claim C1. For every state whose cursor is a valid index (as it is in every state the
  component reaches), whatever the phase, and every input
  text that ends in a space: \<open>handleInputChange\<close> returns normally; the active word
  keeps its text and becomes \<open>correct\<close> if the trimmed input equals its text exactly,
  \<open>incorrect\<close> otherwise; exactly the matching counter grows by one;
  \<open>totalKeystrokes\<close> grows by the length of the trimmed input plus one; the cursor
  advances by one; the next word, when the sequence has one, becomes \<open>active\<close>; the
  draft is cleared.
\<close>

theorem handleInputChange_submit:
  assumes "currentIndex s < length (words s)" and "endsWith val CHR '' ''"
  shows "\<exists>s'. handleInputChange rnd val s = Inr s'
     \<and> text (words s' ! currentIndex s) = text (words s ! currentIndex s)
     \<and> wstatus (words s' ! currentIndex s)
         = (if trim val = text (words s ! currentIndex s) then Correct else Incorrect)
     \<and> correctWords (stats s')
         = (if trim val = text (words s ! currentIndex s)
            then correctWords (stats s) + 1 else correctWords (stats s))
     \<and> incorrectWords (stats s')
         = (if trim val = text (words s ! currentIndex s)
            then incorrectWords (stats s) else incorrectWords (stats s) + 1)
     \<and> totalKeystrokes (stats s') = totalKeystrokes (stats s) + length (trim val) + 1
     \<and> currentIndex s' = currentIndex s + 1
     \<and> (currentIndex s + 1 < length (words s)
          \<longrightarrow> wstatus (words s' ! (currentIndex s + 1)) = Active)
     \<and> inputValue s' = []"
  using assms
  by (simp add: handleInputChange_def Let_def startGame_def nth_append)

theorem handleInputChange_submit_witness:
  "\<exists>s'. handleInputChange (\<lambda>i. 1 / 2) ''the ''
          ((initialState [])\<lparr>words := [\<lparr>text = ''the'', wstatus = Active\<rparr>,
                                         \<lparr>text = ''fox'', wstatus = Pending\<rparr>]\<rparr>) = Inr s'
        \<and> wstatus (words s' ! 0) = Correct \<and> wstatus (words s' ! 1) = Active
        \<and> correctWords (stats s') = 1 \<and> incorrectWords (stats s') = 0
        \<and> totalKeystrokes (stats s') = 4 \<and> currentIndex s' = 1 \<and> inputValue s' = []"
  using handleInputChange_submit
    [of "(initialState [])\<lparr>words := [\<lparr>text = ''the'', wstatus = Active\<rparr>,
                                         \<lparr>text = ''fox'', wstatus = Pending\<rparr>]\<rparr>"
        "''the ''" "\<lambda>i. 1 / 2"]
  by (auto simp add: initialState_def endsWith_def trim_the zeroStats_def)

text \<open>
  Claim C6. For every state whose cursor is a valid index and every input text that
  does not end in a space: the draft becomes that text if its length is at most the
  length of the active word plus 3, and is kept otherwise; in both cases the counters,
  the words and the cursor are unchanged.
\<close>

theorem handleInputChange_draft:
  assumes "currentIndex s < length (words s)" and "\<not> endsWith val CHR '' ''"
  shows "\<exists>s'. handleInputChange rnd val s = Inr s'
     \<and> inputValue s' = (if length val \<le> length (text (words s ! currentIndex s)) + 3
                         then val else inputValue s)
     \<and> stats s' = stats s \<and> words s' = words s \<and> currentIndex s' = currentIndex s"
  using assms
  by (simp add: handleInputChange_def Let_def startGame_def)

theorem handleInputChange_draft_witness:
  "\<exists>s'. handleInputChange (\<lambda>i. 1 / 2) ''foxes''
          ((initialState [])\<lparr>words := [\<lparr>text = ''fox'', wstatus = Active\<rparr>],
                               inputValue := ''foxe''\<rparr>) = Inr s'
        \<and> inputValue s' = ''foxes'' \<and> currentIndex s' = 0"
  using handleInputChange_draft
    [of "(initialState [])\<lparr>words := [\<lparr>text = ''fox'', wstatus = Active\<rparr>],
                               inputValue := ''foxe''\<rparr>" "''foxes''" "\<lambda>i. 1 / 2"]
  by (auto simp add: initialState_def endsWith_def)

section \<open>Extension of the word sequence\<close>





section \<open>The invariant of the session\<close>

lemma initGame_Inr:
  assumes "cw \<noteq> Some []"
  shows "\<exists>s'. initGame rnd cw s = Inr s'
     \<and> correctWords (stats s') + incorrectWords (stats s') = currentIndex s'
     \<and> currentIndex s' < length (words s')"
proof (cases cw)
  case None
  then show ?thesis
    by (simp add: initGame_def Let_def zeroStats_def length_shuffleArray DEFAULT_WORDS_length
        flip: length_0_conv)
next
  case (Some ws)
  with assms have "ws \<noteq> []" by simp
  then have "shuffleArray rnd ws \<noteq> []"
    using length_shuffleArray [of rnd ws] by auto
  with Some show ?thesis
    by (simp add: initGame_def Let_def zeroStats_def)
qed

lemma handleInputChange_invariant:
  assumes "correctWords (stats s) + incorrectWords (stats s) = currentIndex s"
    and "currentIndex s < length (words s)"
  shows "\<exists>s'. handleInputChange rnd val s = Inr s'
     \<and> correctWords (stats s') + incorrectWords (stats s') = currentIndex s'
     \<and> currentIndex s' < length (words s')"
  using assms
  by (simp add: handleInputChange_def Let_def startGame_def length_shuffleArray
      DEFAULT_WORDS_length)

lemma tick_invariant:
  "correctWords (stats (tick h rid now s)) = correctWords (stats s)
   \<and> incorrectWords (stats (tick h rid now s)) = incorrectWords (stats s)
   \<and> currentIndex (tick h rid now s) = currentIndex s
   \<and> words (tick h rid now s) = words s"
  by (simp add: tick_def callback_def endGame_def Let_def split: option.split)

lemma step_invariant:
  assumes "correctWords (stats s) + incorrectWords (stats s) = currentIndex s"
    and "currentIndex s < length (words s)"
  shows "\<exists>s'. step e s = Inr s'
     \<and> correctWords (stats s') + incorrectWords (stats s') = currentIndex s'
     \<and> currentIndex s' < length (words s')"
proof (cases e)
  case (InputChange val rnd)
  then show ?thesis using handleInputChange_invariant [OF assms] by simp
next
  case (Tick h rid now)
  then show ?thesis using assms by (simp add: tick_invariant)
next
  case (SelectDuration t rnd)
  then show ?thesis
    using assms initGame_Inr [of None rnd "s\<lparr>duration := t, timeLeft := t\<rparr>"]
    by (simp add: selectDuration_def Let_def)
next
  case (ThemeChange themeId generated rnd)
  show ?thesis
  proof (cases "themeId = ''custom''")
    case True
    then show ?thesis using assms ThemeChange by (simp add: handleThemeChange_def)
  next
    case False
    define newWords where
      "newWords = (if themeId = ''tech'' \<or> themeId = ''nature'' then generated else DEFAULT_WORDS)"
    have ne: "(if length newWords > 0 then Some newWords else None) \<noteq> Some []" by auto
    have eq: "step e s = initGame rnd (if length newWords > 0 then Some newWords else None)
                           (s\<lparr>selectedTopic := themeId\<rparr>)"
      unfolding ThemeChange newWords_def step.simps handleThemeChange_def Let_def
      using False by (simp only: if_False)
    show ?thesis unfolding eq by (rule initGame_Inr [OF ne])
  qed
next
  case (CustomTopicChange v)
  then show ?thesis using assms by simp
next
  case (CustomTopicSubmit generated rnd)
  have ne: "(if length generated > 0 then Some generated else None) \<noteq> Some []" by auto
  show ?thesis
  proof (cases "customTopic s = []")
    case True
    then show ?thesis using assms CustomTopicSubmit by (simp add: handleCustomTopicSubmit_def)
  next
    case False
    have eq: "step e s = initGame rnd (if length generated > 0 then Some generated else None) s"
      unfolding CustomTopicSubmit step.simps handleCustomTopicSubmit_def
      using False by (simp only: if_False)
    show ?thesis unfolding eq by (rule initGame_Inr [OF ne])
  qed
next
  case (NewRace rnd)
  then show ?thesis using initGame_Inr [of None rnd s] by simp
next
  case HistoryButton
  then show ?thesis using assms by simp
next
  case ResetButton
  then show ?thesis using assms by simp
qed

lemma run_invariant:
  assumes "correctWords (stats s) + incorrectWords (stats s) = currentIndex s"
    and "currentIndex s < length (words s)"
  shows "\<exists>s'. run evs s = Inr s'
     \<and> correctWords (stats s') + incorrectWords (stats s') = currentIndex s'
     \<and> currentIndex s' < length (words s')"
  using assms
proof (induction evs arbitrary: s)
  case Nil
  then show ?case by simp
next
  case (Cons e evs)
  from step_invariant [OF Cons.prems, of e] obtain s1 where
    s1: "step e s = Inr s1"
      "correctWords (stats s1) + incorrectWords (stats s1) = currentIndex s1"
      "currentIndex s1 < length (words s1)"
    by blast
  from Cons.IH [OF s1(2,3)] s1(1) show ?case by simp
qed

text \<open>
  Claim C2. The first render with its effects succeeds, and from the state it leaves,
  every sequence of events (input changes, interval callbacks, duration and theme
  buttons, custom topic, new race, history and reset buttons) runs without an exception
  and ends in a state where \<open>correctWords + incorrectWords = currentIndex\<close> and the
  cursor is a valid index of the word sequence. Every prefix of a sequence of events is
  one, so this holds at all times.
\<close>

theorem session_invariant:
  "\<exists>s0 s. mount rnd stored = Inr s0 \<and> run evs s0 = Inr s
     \<and> correctWords (stats s) + incorrectWords (stats s) = currentIndex s
     \<and> currentIndex s < length (words s)"
proof -
  from initGame_Inr [of None rnd "(initialState stored)\<lparr>history := stored\<rparr>"]
  obtain s0 where s0: "mount rnd stored = Inr s0"
      "correctWords (stats s0) + incorrectWords (stats s0) = currentIndex s0"
      "currentIndex s0 < length (words s0)"
    by (auto simp: mount_def)
  from run_invariant [OF s0(2,3), of evs] s0(1) show ?thesis by blast
qed

section \<open>The end of the game\<close>

lemma tick_countdown:
  assumes "find (\<lambda>iv. handle iv = h) (intervals s) = Some iv" and "1 < timeLeft s"
  shows "tick h rid now s = s\<lparr>timeLeft := timeLeft s - 1\<rparr>"
  using assms by (simp add: tick_def callback_def)

lemma run_ticks:
  assumes "find (\<lambda>iv. handle iv = h) (intervals s) = Some iv" and "n < timeLeft s"
  shows "run (replicate n (Tick h rid now)) s = Inr (s\<lparr>timeLeft := timeLeft s - n\<rparr>)"
  using assms
proof (induction n arbitrary: s)
  case 0
  then show ?case by simp
next
  case (Suc n)
  have "tick h rid now s = s\<lparr>timeLeft := timeLeft s - 1\<rparr>"
    using Suc.prems by (intro tick_countdown) simp_all
  moreover have "run (replicate n (Tick h rid now)) (s\<lparr>timeLeft := timeLeft s - 1\<rparr>)
      = Inr (s\<lparr>timeLeft := timeLeft s - 1\<rparr>\<lparr>timeLeft := timeLeft (s\<lparr>timeLeft := timeLeft s - 1\<rparr>) - n\<rparr>)"
    using Suc.prems by (intro Suc.IH) simp_all
  ultimately show ?case by simp
qed

lemma run_append:
  "run (xs @ ys) s = (case run xs s of Inl err \<Rightarrow> Inl err | Inr s' \<Rightarrow> run ys s')"
  by (induction xs arbitrary: s) (simp_all split: sum.split)

lemma find_clearInterval:
  "find (\<lambda>iv. handle iv = h) (clearInterval (Some h) ivs) = None"
  by (simp add: clearInterval_def find_None_iff)

lemma tick_finalize:
  assumes "find (\<lambda>iv. handle iv = h) (intervals s) = Some iv" and "timerRef s = Some h"
    and "timeLeft s \<le> 1"
  shows "tick h rid now s =
     s\<lparr>intervals := clearInterval (Some h) (intervals s),
       status := Finished,
       typing_scores := saveScore
         \<lparr>wpm = calculateWPM (of_nat (correctWords (stats s))) (of_nat (closed_duration iv)),
          accuracy = calculateAccuracy (of_nat (correctWords (stats s)))
                       (of_nat (incorrectWords (stats s))),
          correctWords = correctWords (stats s), incorrectWords = incorrectWords (stats s),
          totalKeystrokes = totalKeystrokes (stats s), timeSpent = closed_duration iv,
          ident = rid, timestamp = now,
          topic = (if closed_selectedTopic iv = ''custom''
                   then closed_customTopic iv else closed_selectedTopic iv)\<rparr>
         (typing_scores s),
       history := history s @
         [\<lparr>wpm = calculateWPM (of_nat (correctWords (stats s))) (of_nat (closed_duration iv)),
           accuracy = calculateAccuracy (of_nat (correctWords (stats s)))
                        (of_nat (incorrectWords (stats s))),
           correctWords = correctWords (stats s), incorrectWords = incorrectWords (stats s),
           totalKeystrokes = totalKeystrokes (stats s), timeSpent = closed_duration iv,
           ident = rid, timestamp = now,
           topic = (if closed_selectedTopic iv = ''custom''
                    then closed_customTopic iv else closed_selectedTopic iv)\<rparr>],
       stats := (stats s)
         \<lparr>wpm := calculateWPM (of_nat (correctWords (stats s))) (of_nat (closed_duration iv)),
          accuracy := calculateAccuracy (of_nat (correctWords (stats s)))
                        (of_nat (incorrectWords (stats s)))\<rparr>,
       timeLeft := 0\<rparr>"
  using assms by (simp add: tick_def callback_def endGame_def Let_def)

lemma tick_cleared:
  assumes "find (\<lambda>iv. handle iv = h) (intervals s) = None"
  shows "tick h rid now s = s"
  using assms by (simp add: tick_def)

lemma shuffleArray_default_ne: "shuffleArray rnd DEFAULT_WORDS \<noteq> []"
  using length_shuffleArray [of rnd DEFAULT_WORDS]
  by (simp add: DEFAULT_WORDS_length flip: length_0_conv)

lemma initGame_default:
  "initGame rnd None s =
     Inr (s\<lparr>words := (map pendingWord (shuffleArray rnd DEFAULT_WORDS))
                    [0 := (map pendingWord (shuffleArray rnd DEFAULT_WORDS) ! 0)
                            \<lparr>wstatus := Active\<rparr>],
            currentIndex := 0, inputValue := [], timeLeft := duration s,
            status := Idle, stats := zeroStats\<rparr>)"
  by (simp add: initGame_def Let_def shuffleArray_default_ne)

lemma configured:
  assumes "mount rnd0 stored = Inr s0" and "selectDuration rnd1 15 s0 = Inr s1"
  shows "status s1 = Idle \<and> currentIndex s1 = 0 \<and> length (words s1) = 40
       \<and> timeLeft s1 = 15 \<and> duration s1 = 15 \<and> selectedTopic s1 = ''random''
       \<and> customTopic s1 = [] \<and> history s1 = stored \<and> stats s1 = zeroStats
       \<and> intervals s1 = [] \<and> timerRef s1 = None \<and> nextHandle s1 = 1
       \<and> typing_scores s1 = stored"
proof -
  from assms(1) have s0: "duration s0 = 60" "selectedTopic s0 = ''random''"
      "customTopic s0 = []" "history s0 = stored" "intervals s0 = []" "timerRef s0 = None"
      "nextHandle s0 = 1" "typing_scores s0 = stored"
    by (auto simp: mount_def initGame_default initialState_def)
  from assms(2) s0 show ?thesis
    by (auto simp: selectDuration_def initGame_default Let_def length_shuffleArray
        DEFAULT_WORDS_length)
qed

lemma wpm_1_15: "calculateWPM 1 15 = 4"
  by code_simp

lemma accuracy_1_0: "calculateAccuracy 1 0 = 100"
  by code_simp

lemma scenario:
  assumes "mount rnd0 stored = Inr s0" and "selectDuration rnd1 15 s0 = Inr s1"
    and "text (words s1 ! 0) = ''the''"
  shows "\<exists>s. run (InputChange ''the '' rnd2 # replicate 15 (Tick 1 rid now)) s1 = Inr s
     \<and> status s = Finished
     \<and> history s = stored @
         [\<lparr>wpm = 4, accuracy = 100, correctWords = 1, incorrectWords = 0,
           totalKeystrokes = 4, timeSpent = 15, ident = rid, timestamp = now,
           topic = ''random''\<rparr>]
     \<and> intervals s = [] \<and> timeLeft s = 0"
proof -
  note c = configured [OF assms(1,2)]
  obtain s2 where s2: "handleInputChange rnd2 ''the '' s1 = Inr s2"
    and s2_fields: "status s2 = Playing" "timeLeft s2 = 15" "history s2 = stored"
      "intervals s2 = [\<lparr>handle = 1, closed_duration = 15, closed_selectedTopic = ''random'',
                         closed_customTopic = []\<rparr>]"
      "timerRef s2 = Some 1" "correctWords (stats s2) = 1" "incorrectWords (stats s2) = 0"
      "totalKeystrokes (stats s2) = 4"
    using c assms(3)
    by (simp add: handleInputChange_def Let_def startGame_def endsWith_def trim_the
        zeroStats_def)
  define iv where "iv = \<lparr>handle = 1, closed_duration = 15, closed_selectedTopic = ''random'',
                         closed_customTopic = []\<rparr>"
  have f2: "find (\<lambda>iv. handle iv = 1) (intervals s2) = Some iv"
    unfolding iv_def by (simp add: s2_fields)
  define ts where "ts = replicate 14 (Tick 1 rid now)"
  define s3 where "s3 = s2\<lparr>timeLeft := timeLeft s2 - 14\<rparr>"
  have r14: "run ts s2 = Inr s3"
    unfolding ts_def s3_def using f2 by (rule run_ticks) (simp add: s2_fields)
  have f3: "find (\<lambda>iv. handle iv = 1) (intervals s3) = Some iv"
    using f2 by (simp add: s3_def)
  have g3: "timerRef s3 = Some 1" "timeLeft s3 \<le> 1"
    by (simp_all add: s3_def s2_fields)
  have "(15::nat) = Suc 14" by simp
  then have "replicate 15 (Tick 1 rid now) = Tick 1 rid now # ts"
    unfolding ts_def by (simp only: replicate_Suc)
  also have "\<dots> = ts @ [Tick 1 rid now]"
    unfolding ts_def by (simp only: replicate_append_same)
  finally have split: "replicate 15 (Tick 1 rid now) = ts @ [Tick 1 rid now]" .
  have "run (InputChange ''the '' rnd2 # replicate 15 (Tick 1 rid now)) s1
           = Inr (tick 1 rid now s3)"
    unfolding split by (simp add: s2 run_append r14)
  moreover have "status (tick 1 rid now s3) = Finished"
    unfolding tick_finalize [OF f3 g3] by simp
  moreover have "history (tick 1 rid now s3) = stored @
         [\<lparr>wpm = 4, accuracy = 100, correctWords = 1, incorrectWords = 0,
           totalKeystrokes = 4, timeSpent = 15, ident = rid, timestamp = now,
           topic = ''random''\<rparr>]"
    unfolding tick_finalize [OF f3 g3]
    by (simp add: s3_def s2_fields iv_def wpm_1_15 accuracy_1_0)
  moreover have "intervals (tick 1 rid now s3) = []" "timeLeft (tick 1 rid now s3) = 0"
    unfolding tick_finalize [OF f3 g3]
    by (simp_all add: s3_def s2_fields clearInterval_def)
  ultimately show ?thesis by simp
qed

lemma initGame_timer:
  assumes "initGame rnd cw s = Inr s'"
  shows "status s' = Idle \<and> intervals s' = intervals s \<and> nextHandle s' = nextHandle s"
  using assms by (auto simp: initGame_def Let_def split: if_splits)

lemma tick_timer:
  "(status (tick h rid now s) = Playing \<longrightarrow> status s = Playing)
   \<and> set (intervals (tick h rid now s)) \<subseteq> set (intervals s)
   \<and> nextHandle (tick h rid now s) = nextHandle s
   \<and> timerRef (tick h rid now s) = timerRef s
   \<and> duration (tick h rid now s) = duration s"
  by (auto simp: tick_def callback_def endGame_def Let_def clearInterval_def
      split: option.splits)

lemma handleInputChange_timer:
  assumes "handleInputChange rnd val s = Inr s'"
  shows "duration s' = duration s
       \<and> (if status s = Idle
          then status s' = Playing
             \<and> intervals s' = intervals s @
                   [\<lparr>handle = nextHandle s, closed_duration = duration s,
                     closed_selectedTopic = selectedTopic s,
                     closed_customTopic = customTopic s\<rparr>]
             \<and> timerRef s' = Some (nextHandle s) \<and> nextHandle s' = Suc (nextHandle s)
          else status s' = status s \<and> intervals s' = intervals s
             \<and> timerRef s' = timerRef s \<and> nextHandle s' = nextHandle s)"
  using assms
  by (auto simp: handleInputChange_def Let_def startGame_def split: if_splits)

lemma step_closure:
  assumes "\<forall>iv \<in> set (intervals s). handle iv < nextHandle s"
    and "status s = Playing \<longrightarrow>
          (\<forall>iv \<in> set (intervals s). timerRef s = Some (handle iv) \<longrightarrow> closed_duration iv = duration s)"
    and "step e s = Inr s'"
  shows "(\<forall>iv \<in> set (intervals s'). handle iv < nextHandle s')
       \<and> (status s' = Playing \<longrightarrow>
          (\<forall>iv \<in> set (intervals s'). timerRef s' = Some (handle iv) \<longrightarrow> closed_duration iv = duration s'))"
proof (cases e)
  case (InputChange val rnd)
  with assms(3) have h: "handleInputChange rnd val s = Inr s'" by simp
  show ?thesis
  proof (cases "status s = Idle")
    case True
    with handleInputChange_timer [OF h]
    have f: "duration s' = duration s" "status s' = Playing"
      "intervals s' = intervals s @
                   [\<lparr>handle = nextHandle s, closed_duration = duration s,
                     closed_selectedTopic = selectedTopic s,
                     closed_customTopic = customTopic s\<rparr>]"
      "timerRef s' = Some (nextHandle s)" "nextHandle s' = Suc (nextHandle s)"
      by simp_all
    have "handle iv \<noteq> nextHandle s" if "iv \<in> set (intervals s)" for iv
      using assms(1) that by auto
    then show ?thesis using assms(1) by (auto simp: f less_Suc_eq)
  next
    case False
    with handleInputChange_timer [OF h] assms(1,2) show ?thesis by simp
  qed
next
  case (Tick h rid now)
  with assms(3) have s': "s' = tick h rid now s" by simp
  from tick_timer [of h rid now s] assms(1,2) show ?thesis unfolding s' by (auto simp: subset_iff)
next
  case (SelectDuration t rnd)
  show ?thesis
  proof (cases "t = duration s")
    case True
    with assms SelectDuration show ?thesis by (auto simp: selectDuration_def Let_def)
  next
    case False
    with assms(3) SelectDuration
    have "initGame rnd None (s\<lparr>duration := t, timeLeft := t\<rparr>) = Inr s'"
      by (simp add: selectDuration_def Let_def)
    from initGame_timer [OF this] assms(1) show ?thesis by simp
  qed
next
  case (ThemeChange themeId generated rnd)
  show ?thesis
  proof (cases "themeId = ''custom''")
    case True
    with assms ThemeChange show ?thesis by (auto simp: handleThemeChange_def)
  next
    case False
    with assms(3) ThemeChange obtain cw where
      "initGame rnd cw (s\<lparr>selectedTopic := themeId\<rparr>) = Inr s'"
      by (simp add: handleThemeChange_def Let_def)
    from initGame_timer [OF this] assms(1) show ?thesis by simp
  qed
next
  case (CustomTopicChange v)
  with assms show ?thesis by auto
next
  case (CustomTopicSubmit generated rnd)
  show ?thesis
  proof (cases "customTopic s = []")
    case True
    with assms CustomTopicSubmit show ?thesis by (auto simp: handleCustomTopicSubmit_def)
  next
    case False
    with assms(3) CustomTopicSubmit obtain cw where "initGame rnd cw s = Inr s'"
      by (simp add: handleCustomTopicSubmit_def)
    from initGame_timer [OF this] assms(1) show ?thesis by simp
  qed
next
  case (NewRace rnd)
  with assms(3) have "initGame rnd None s = Inr s'" by simp
  from initGame_timer [OF this] assms(1) show ?thesis by simp
next
  case HistoryButton
  with assms show ?thesis by auto
next
  case ResetButton
  with assms show ?thesis by auto
qed

lemma run_closure:
  assumes "\<forall>iv \<in> set (intervals s). handle iv < nextHandle s"
    and "status s = Playing \<longrightarrow>
          (\<forall>iv \<in> set (intervals s). timerRef s = Some (handle iv) \<longrightarrow> closed_duration iv = duration s)"
    and "run evs s = Inr s'"
  shows "status s' = Playing \<longrightarrow>
          (\<forall>iv \<in> set (intervals s'). timerRef s' = Some (handle iv) \<longrightarrow> closed_duration iv = duration s')"
  using assms
proof (induction evs arbitrary: s)
  case Nil
  then show ?case by simp
next
  case (Cons e evs)
  from Cons.prems(3) obtain s1 where s1: "step e s = Inr s1" "run evs s1 = Inr s'"
    by (auto split: sum.splits)
  from step_closure [OF Cons.prems(1,2) s1(1)] Cons.IH [of s1] s1(2) show ?case by blast
qed

lemma mounted_closure:
  assumes "mount rnd0 stored = Inr s0" and "run evs s0 = Inr s" and "status s = Playing"
    and "find (\<lambda>iv. handle iv = h) (intervals s) = Some iv" and "timerRef s = Some h"
  shows "closed_duration iv = duration s"
proof -
  from assms(1) have "intervals s0 = []" "status s0 = Idle"
    by (auto simp: mount_def initGame_default initialState_def)
  then have "\<forall>iv \<in> set (intervals s0). handle iv < nextHandle s0"
    and "status s0 = Playing \<longrightarrow>
          (\<forall>iv \<in> set (intervals s0). timerRef s0 = Some (handle iv) \<longrightarrow> closed_duration iv = duration s0)"
    by simp_all
  from run_closure [OF this assms(2)] assms(3)
  have all: "\<forall>iv \<in> set (intervals s). timerRef s = Some (handle iv) \<longrightarrow> closed_duration iv = duration s"
    by simp
  from assms(4) have "iv \<in> set (intervals s)" "handle iv = h"
    by (auto simp: find_Some_iff in_set_conv_nth)
  with all assms(5) show ?thesis by simp
qed

text \<open>
  What holds of the callback of the interval that \<open>timerRef\<close> holds: when it fires in
  a playing state with at most one second left, the state becomes \<open>finished\<close>, one
  score entry is added, with the wpm computed by \<open>calculateWPM\<close> from \<open>correctWords\<close>
  and the duration its \<open>endGame\<close> closed over and the accuracy from the two counters,
  and that interval is cleared; with more than one second left the callback neither
  ends the game nor adds an entry. When no other interval is running, a session
  configured with 15 seconds whose first word is \<open>the\<close> ends, after the input \<open>the\<close>
  and a space and 15 callbacks, with the one entry \<open>correctWords = 1\<close>,
  \<open>incorrectWords = 0\<close>, \<open>wpm = 4\<close>, \<open>accuracy = 100\<close>, \<open>timeSpent = 15\<close>.
\<close>

lemma finalize_by_current_timer:
  "(find (\<lambda>iv. handle iv = h) (intervals s) = Some iv \<and> timerRef s = Some h
      \<and> status s = Playing \<and> timeLeft s \<le> 1 \<longrightarrow>
      status (tick h rid now s) = Finished
    \<and> history (tick h rid now s) = history s @
         [\<lparr>wpm = calculateWPM (of_nat (correctWords (stats s))) (of_nat (closed_duration iv)),
           accuracy = calculateAccuracy (of_nat (correctWords (stats s)))
                        (of_nat (incorrectWords (stats s))),
           correctWords = correctWords (stats s), incorrectWords = incorrectWords (stats s),
           totalKeystrokes = totalKeystrokes (stats s), timeSpent = closed_duration iv,
           ident = rid, timestamp = now,
           topic = (if closed_selectedTopic iv = ''custom''
                    then closed_customTopic iv else closed_selectedTopic iv)\<rparr>]
    \<and> wpm (stats (tick h rid now s))
        = calculateWPM (of_nat (correctWords (stats s))) (of_nat (closed_duration iv))
    \<and> accuracy (stats (tick h rid now s))
        = calculateAccuracy (of_nat (correctWords (stats s))) (of_nat (incorrectWords (stats s)))
    \<and> find (\<lambda>iv. handle iv = h) (intervals (tick h rid now s)) = None
    \<and> tick h rid' now' (tick h rid now s) = tick h rid now s)
   \<and> (1 < timeLeft s \<longrightarrow>
        status (tick h rid now s) = status s \<and> history (tick h rid now s) = history s)
   \<and> (mount rnd0 stored = Inr s0 \<and> selectDuration rnd1 15 s0 = Inr s1
        \<and> text (words s1 ! 0) = ''the'' \<longrightarrow>
        (\<exists>s'. run (InputChange ''the '' rnd2 # replicate 15 (Tick 1 rid now)) s1 = Inr s'
           \<and> status s' = Finished
           \<and> history s' = stored @
               [\<lparr>wpm = 4, accuracy = 100, correctWords = 1, incorrectWords = 0,
                 totalKeystrokes = 4, timeSpent = 15, ident = rid, timestamp = now,
                 topic = ''random''\<rparr>]
           \<and> intervals s' = [] \<and> timeLeft s' = 0))
   \<and> (mount rnd0 stored = Inr s0 \<and> run evs s0 = Inr s \<and> status s = Playing
        \<and> find (\<lambda>iv. handle iv = h) (intervals s) = Some iv \<and> timerRef s = Some h \<longrightarrow>
        closed_duration iv = duration s)"
proof (intro conjI impI)
  assume a: "find (\<lambda>iv. handle iv = h) (intervals s) = Some iv \<and> timerRef s = Some h
      \<and> status s = Playing \<and> timeLeft s \<le> 1"
  then have f: "find (\<lambda>iv. handle iv = h) (intervals s) = Some iv"
    and g: "timerRef s = Some h" "timeLeft s \<le> 1" by simp_all
  note eq = tick_finalize [OF f g]
  show "status (tick h rid now s) = Finished" unfolding eq by simp
  show "history (tick h rid now s) = history s @
         [\<lparr>wpm = calculateWPM (of_nat (correctWords (stats s))) (of_nat (closed_duration iv)),
           accuracy = calculateAccuracy (of_nat (correctWords (stats s)))
                        (of_nat (incorrectWords (stats s))),
           correctWords = correctWords (stats s), incorrectWords = incorrectWords (stats s),
           totalKeystrokes = totalKeystrokes (stats s), timeSpent = closed_duration iv,
           ident = rid, timestamp = now,
           topic = (if closed_selectedTopic iv = ''custom''
                    then closed_customTopic iv else closed_selectedTopic iv)\<rparr>]"
    unfolding eq by simp
  show "wpm (stats (tick h rid now s))
        = calculateWPM (of_nat (correctWords (stats s))) (of_nat (closed_duration iv))"
    unfolding eq by simp
  show "accuracy (stats (tick h rid now s))
        = calculateAccuracy (of_nat (correctWords (stats s))) (of_nat (incorrectWords (stats s)))"
    unfolding eq by simp
  show none: "find (\<lambda>iv. handle iv = h) (intervals (tick h rid now s)) = None"
    unfolding eq by (simp add: find_clearInterval)
  show "tick h rid' now' (tick h rid now s) = tick h rid now s"
    using none by (rule tick_cleared)
next
  assume "1 < timeLeft s"
  then show "status (tick h rid now s) = status s" "history (tick h rid now s) = history s"
    by (simp_all add: tick_def callback_def split: option.split)
next
  assume "mount rnd0 stored = Inr s0 \<and> selectDuration rnd1 15 s0 = Inr s1
        \<and> text (words s1 ! 0) = ''the''"
  then have "mount rnd0 stored = Inr s0" "selectDuration rnd1 15 s0 = Inr s1"
    "text (words s1 ! 0) = ''the''" by simp_all
  then show "\<exists>s'. run (InputChange ''the '' rnd2 # replicate 15 (Tick 1 rid now)) s1 = Inr s'
           \<and> status s' = Finished
           \<and> history s' = stored @
               [\<lparr>wpm = 4, accuracy = 100, correctWords = 1, incorrectWords = 0,
                 totalKeystrokes = 4, timeSpent = 15, ident = rid, timestamp = now,
                 topic = ''random''\<rparr>]
           \<and> intervals s' = [] \<and> timeLeft s' = 0"
    by (rule scenario)
next
  assume "mount rnd0 stored = Inr s0 \<and> run evs s0 = Inr s \<and> status s = Playing
        \<and> find (\<lambda>iv. handle iv = h) (intervals s) = Some iv \<and> timerRef s = Some h"
  then have "mount rnd0 stored = Inr s0" "run evs s0 = Inr s" "status s = Playing"
    "find (\<lambda>iv. handle iv = h) (intervals s) = Some iv" "timerRef s = Some h" by simp_all
  then show "closed_duration iv = duration s" by (rule mounted_closure)
qed

lemma first_word_half: "shuffleArray (\<lambda>i. 1 / 2) DEFAULT_WORDS ! 0 = ''the''"
  by code_simp

lemma finalize_by_current_timer_example:
  "(\<exists>s0 s1 s'. mount (\<lambda>i. 1 / 2) [] = Inr s0
     \<and> selectDuration (\<lambda>i. 1 / 2) 15 s0 = Inr s1
     \<and> text (words s1 ! 0) = ''the''
     \<and> run (InputChange ''the '' (\<lambda>i. 1 / 2) # replicate 15 (Tick 1 ''k3x9q0a7z'' 1700000000000)) s1
         = Inr s'
     \<and> status s' = Finished
     \<and> history s' =
         [\<lparr>wpm = 4, accuracy = 100, correctWords = 1, incorrectWords = 0,
           totalKeystrokes = 4, timeSpent = 15, ident = ''k3x9q0a7z'',
           timestamp = 1700000000000, topic = ''random''\<rparr>])
   \<and> status (tick 1 ''k3x9q0a7z'' 1700000000000
         ((initialState [])
            \<lparr>status := Playing, timeLeft := 1, timerRef := Some 1,
             intervals := [\<lparr>handle = 1, closed_duration = 60,
                            closed_selectedTopic = ''random'', closed_customTopic = []\<rparr>]\<rparr>))
       = Finished
   \<and> status (tick 1 ''k3x9q0a7z'' 1700000000000 (initialState [])) = Idle
   \<and> (\<exists>s0 s iv. mount (\<lambda>i. 1 / 2) [] = Inr s0
        \<and> run [SelectDuration 15 (\<lambda>i. 1 / 2), InputChange ''t'' (\<lambda>i. 1 / 2)] s0 = Inr s
        \<and> status s = Playing
        \<and> find (\<lambda>iv. handle iv = 1) (intervals s) = Some iv \<and> timerRef s = Some 1
        \<and> closed_duration iv = duration s \<and> duration s = 15)"
proof -
  define s0 where "s0 = projr (mount (\<lambda>i. 1 / 2) [])"
  have m: "mount (\<lambda>i. 1 / 2) [] = Inr s0"
    by (simp add: s0_def mount_def initGame_default)
  define s1 where "s1 = projr (selectDuration (\<lambda>i. 1 / 2) 15 s0)"
  have d0: "duration s0 = 60"
    by (simp add: s0_def mount_def initGame_default initialState_def)
  have sd: "selectDuration (\<lambda>i. 1 / 2) 15 s0 = Inr s1"
    by (simp add: s1_def selectDuration_def Let_def initGame_default d0)
  have w: "text (words s1 ! 0) = ''the''"
    using shuffleArray_default_ne [of "\<lambda>i. 1 / 2"]
    by (simp add: s1_def selectDuration_def Let_def initGame_default d0 first_word_half
        pendingWord_def length_shuffleArray DEFAULT_WORDS_length)
  from finalize_by_current_timer
    [where rid = "''k3x9q0a7z''" and now = 1700000000000 and ?rnd0.0 = "\<lambda>i. 1 / 2"
       and stored = "[]" and ?s0.0 = s0 and ?rnd1.0 = "\<lambda>i. 1 / 2" and ?s1.0 = s1
       and ?rnd2.0 = "\<lambda>i. 1 / 2"]
    m sd w
  obtain s' where r: "run (InputChange ''the '' (\<lambda>i. 1 / 2)
                        # replicate 15 (Tick 1 ''k3x9q0a7z'' 1700000000000)) s1 = Inr s'"
    and st: "status s' = Finished"
    and hi: "history s' = [] @
         [\<lparr>wpm = 4, accuracy = 100, correctWords = 1, incorrectWords = 0,
           totalKeystrokes = 4, timeSpent = 15, ident = ''k3x9q0a7z'',
           timestamp = 1700000000000, topic = ''random''\<rparr>]"
    by blast
  from hi have hi': "history s' =
         [\<lparr>wpm = 4, accuracy = 100, correctWords = 1, incorrectWords = 0,
           totalKeystrokes = 4, timeSpent = 15, ident = ''k3x9q0a7z'',
           timestamp = 1700000000000, topic = ''random''\<rparr>]"
    by (simp only: append_Nil)
  from m sd w r st hi'
  have A: "\<exists>s0 s1 s'. mount (\<lambda>i. 1 / 2) [] = Inr s0
     \<and> selectDuration (\<lambda>i. 1 / 2) 15 s0 = Inr s1
     \<and> text (words s1 ! 0) = ''the''
     \<and> run (InputChange ''the '' (\<lambda>i. 1 / 2) # replicate 15 (Tick 1 ''k3x9q0a7z'' 1700000000000)) s1
         = Inr s'
     \<and> status s' = Finished
     \<and> history s' =
         [\<lparr>wpm = 4, accuracy = 100, correctWords = 1, incorrectWords = 0,
           totalKeystrokes = 4, timeSpent = 15, ident = ''k3x9q0a7z'',
           timestamp = 1700000000000, topic = ''random''\<rparr>]"
    by blast
  define ex where "ex = (initialState [])
            \<lparr>status := Playing, timeLeft := 1, timerRef := Some 1,
             intervals := [\<lparr>handle = 1, closed_duration = 60,
                            closed_selectedTopic = ''random'', closed_customTopic = []\<rparr>]\<rparr>"
  have "find (\<lambda>iv. handle iv = 1) (intervals ex)
          = Some \<lparr>handle = 1, closed_duration = 60,
                  closed_selectedTopic = ''random'', closed_customTopic = []\<rparr>"
     and "timerRef ex = Some 1" and "status ex = Playing" and "timeLeft ex \<le> 1"
    by (simp_all add: ex_def)
  with finalize_by_current_timer
    [where s = ex and h = 1 and rid = "''k3x9q0a7z''" and now = 1700000000000
       and iv = "\<lparr>handle = 1, closed_duration = 60,
                  closed_selectedTopic = ''random'', closed_customTopic = []\<rparr>"]
  have B: "status (tick 1 ''k3x9q0a7z'' 1700000000000 ex) = Finished" by blast
  have "1 < timeLeft (initialState [])" by (simp add: initialState_def)
  with finalize_by_current_timer
    [where s = "initialState []" and h = 1 and rid = "''k3x9q0a7z''" and now = 1700000000000]
  have "status (tick 1 ''k3x9q0a7z'' 1700000000000 (initialState []))
      = status (initialState [])" by blast
  then have C: "status (tick 1 ''k3x9q0a7z'' 1700000000000 (initialState [])) = Idle"
    by (simp add: initialState_def)
  note c = configured [OF m sd]
  define iv where "iv = \<lparr>handle = 1, closed_duration = 15, closed_selectedTopic = ''random'',
                         closed_customTopic = []\<rparr>"
  obtain s2 where s2: "handleInputChange (\<lambda>i. 1 / 2) ''t'' s1 = Inr s2"
    and s2_fields: "status s2 = Playing" "timerRef s2 = Some 1" "duration s2 = 15"
      "intervals s2 = [iv]"
    using c unfolding iv_def
    by (simp add: handleInputChange_def Let_def startGame_def endsWith_def)
  have r2: "run [SelectDuration 15 (\<lambda>i. 1 / 2), InputChange ''t'' (\<lambda>i. 1 / 2)] s0 = Inr s2"
    by (simp add: sd s2)
  have f2: "find (\<lambda>iv. handle iv = 1) (intervals s2) = Some iv"
    unfolding s2_fields iv_def by simp
  from finalize_by_current_timer
    [where ?rnd0.0 = "\<lambda>i. 1 / 2" and stored = "[]" and ?s0.0 = s0 and s = s2 and h = 1
       and iv = iv
       and evs = "[SelectDuration 15 (\<lambda>i. 1 / 2), InputChange ''t'' (\<lambda>i. 1 / 2)]"]
    m r2 s2_fields(1,2) f2
  have "closed_duration iv = duration s2" by blast
  with m r2 s2_fields(1,2,3) f2
  have D: "\<exists>s0 s iv. mount (\<lambda>i. 1 / 2) [] = Inr s0
        \<and> run [SelectDuration 15 (\<lambda>i. 1 / 2), InputChange ''t'' (\<lambda>i. 1 / 2)] s0 = Inr s
        \<and> status s = Playing
        \<and> find (\<lambda>iv. handle iv = 1) (intervals s) = Some iv \<and> timerRef s = Some 1
        \<and> closed_duration iv = duration s \<and> duration s = 15"
    by blast
  from A B C D show ?thesis unfolding ex_def by blast
qed

lemma find_filter_keep:
  "(\<And>x. P x \<Longrightarrow> Q x) \<Longrightarrow> find P (filter Q xs) = find P xs"
  by (induction xs) auto

lemma tick_leaked:
  assumes "find (\<lambda>iv. handle iv = h) (intervals s) = Some iv" and "timerRef s = Some h'"
    and "h' \<noteq> h" and "timeLeft s \<le> 1"
  shows "find (\<lambda>iv. handle iv = h) (intervals (tick h rid now s)) = Some iv
       \<and> timerRef (tick h rid now s) = Some h'
       \<and> timeLeft (tick h rid now s) \<le> 1
       \<and> status (tick h rid now s) = Finished
       \<and> duration (tick h rid now s) = duration s
       \<and> correctWords (stats (tick h rid now s)) = correctWords (stats s)
       \<and> map timeSpent (history (tick h rid now s))
           = map timeSpent (history s) @ [closed_duration iv]
       \<and> map correctWords (history (tick h rid now s))
           = map correctWords (history s) @ [correctWords (stats s)]
       \<and> map wpm (history (tick h rid now s))
           = map wpm (history s)
             @ [calculateWPM (of_nat (correctWords (stats s))) (of_nat (closed_duration iv))]"
proof -
  have "find (\<lambda>iv. handle iv = h) (filter (\<lambda>iv. handle iv \<noteq> h') (intervals s))
      = find (\<lambda>iv. handle iv = h) (intervals s)"
    using assms(3) by (intro find_filter_keep) simp
  then have keep: "find (\<lambda>iv. handle iv = h) (clearInterval (Some h') (intervals s)) = Some iv"
    using assms(1) by (simp add: clearInterval_def)
  show ?thesis
    using assms keep by (simp add: tick_def callback_def endGame_def Let_def)
qed

text \<open>
  Claim C4 says that on the transition from playing to finished \<open>endGame\<close> runs
  exactly once, with the wpm over the whole configured duration, so that a session
  configured with 15 seconds in which the one correct word \<open>the\<close> is submitted ends
  after 15 ticks with \<open>wpm = 4\<close> and \<open>timeSpent = 15\<close>. The code does not keep it:
  \<open>endGame\<close> clears the interval held in \<open>timerRef\<close>, but \<open>startGame\<close> overwrites
  \<open>timerRef\<close> and \<open>initGame\<close> returns to \<open>idle\<close> without clearing a running interval.
  After the input \<open>t\<close>, the 15 second button and the input \<open>the\<close> and a space, two
  intervals run. Fifteen callbacks of the first end the game with an entry over 60
  seconds (\<open>wpm = 1\<close>, \<open>timeSpent = 60\<close>) while the configured duration is 15; that
  interval is still registered, and each further callback runs \<open>endGame\<close> again and
  adds an entry.
\<close>

theorem leaked_interval_finalizes_again:
  "(case mount (\<lambda>i. 1 / 2) [] of
      Inl err \<Rightarrow> None
    | Inr s0 \<Rightarrow>
        (case run ([InputChange ''t'' (\<lambda>i. 1 / 2), SelectDuration 15 (\<lambda>i. 1 / 2),
                    InputChange ''the '' (\<lambda>i. 1 / 2)]
                   @ replicate 14 (Tick 1 ''k3x9q0a7z'' 1700000000000)
                   @ [Tick 1 ''k3x9q0a7z'' 1700000000000,
                      Tick 1 ''m2p8w5c1d'' 1700000001000,
                      Tick 1 ''m2p8w5c1d'' 1700000002000]) s0 of
           Inl err \<Rightarrow> None
         | Inr s \<Rightarrow> Some (status s, duration s, map correctWords (history s),
                          map wpm (history s), map timeSpent (history s))))
   = Some (Finished, 15, [1, 1, 1], [1, 1, 1], [60, 60, 60])"
proof -
  define r :: draws where "r = (\<lambda>i. 1 / 2)"
  define W where "W = (map pendingWord (shuffleArray r DEFAULT_WORDS))
                    [0 := (map pendingWord (shuffleArray r DEFAULT_WORDS) ! 0)
                            \<lparr>wstatus := Active\<rparr>]"
  have W: "length W = 40" "text (W ! 0) = ''the''"
    using shuffleArray_default_ne [of r] first_word_half
    by (simp_all add: W_def r_def length_shuffleArray DEFAULT_WORDS_length pendingWord_def)
  define s0 where "s0 = ((initialState [])\<lparr>history := []\<rparr>)
       \<lparr>words := W, currentIndex := 0, inputValue := [], timeLeft := 60,
        status := Idle, stats := zeroStats\<rparr>"
  have m: "mount r [] = Inr s0"
    by (simp add: mount_def initGame_default s0_def W_def initialState_def)
  define iv1 where "iv1 = \<lparr>handle = 1, closed_duration = 60, closed_selectedTopic = ''random'',
                           closed_customTopic = []\<rparr>"
  define iv2 where "iv2 = \<lparr>handle = 2, closed_duration = 15, closed_selectedTopic = ''random'',
                           closed_customTopic = []\<rparr>"
  obtain s1 where s1: "handleInputChange r ''t'' s0 = Inr s1"
    and f1: "duration s1 = 60" "intervals s1 = [\<lparr>handle = 1, closed_duration = 60, closed_selectedTopic = ''random'',
                           closed_customTopic = []\<rparr>]" "timerRef s1 = Some 1" "nextHandle s1 = 2"
      "selectedTopic s1 = ''random''" "customTopic s1 = []" "history s1 = []"
    using W
    by (simp add: handleInputChange_def Let_def startGame_def endsWith_def s0_def
        initialState_def)
  define s2 where "s2 = (s1\<lparr>duration := 15, timeLeft := 15\<rparr>)
       \<lparr>words := W, currentIndex := 0, inputValue := [], timeLeft := 15,
        status := Idle, stats := zeroStats\<rparr>"
  have sd: "selectDuration r 15 s1 = Inr s2"
    by (simp add: selectDuration_def Let_def f1 initGame_default s2_def W_def)
  obtain s3 where s3: "handleInputChange r ''the '' s2 = Inr s3"
    and f3: "status s3 = Playing" "duration s3 = 15" "timeLeft s3 = 15"
      "intervals s3 = [\<lparr>handle = 1, closed_duration = 60, closed_selectedTopic = ''random'',
                           closed_customTopic = []\<rparr>,
                       \<lparr>handle = 2, closed_duration = 15, closed_selectedTopic = ''random'',
                           closed_customTopic = []\<rparr>]" "timerRef s3 = Some 2" "history s3 = []"
      "correctWords (stats s3) = 1"
    using W
    by (simp add: handleInputChange_def Let_def startGame_def endsWith_def trim_the s2_def f1
        zeroStats_def)
  have find3: "find (\<lambda>iv. handle iv = 1) (intervals s3) = Some iv1"
    unfolding f3(4) iv1_def by simp
  define ts where "ts = replicate 14 (Tick 1 ''k3x9q0a7z'' 1700000000000)"
  define s4 where "s4 = s3\<lparr>timeLeft := timeLeft s3 - 14\<rparr>"
  have r14: "run ts s3 = Inr s4"
    unfolding s4_def ts_def using find3 by (rule run_ticks) (simp add: f3)
  have f4: "find (\<lambda>iv. handle iv = 1) (intervals s4) = Some iv1" "timerRef s4 = Some 2"
    "timeLeft s4 \<le> 1" "duration s4 = 15" "history s4 = []" "correctWords (stats s4) = 1"
    using find3 by (simp_all add: s4_def f3(1,2,3,5,6,7))
  define s5 where "s5 = tick 1 ''k3x9q0a7z'' 1700000000000 s4"
  define s6 where "s6 = tick 1 ''m2p8w5c1d'' 1700000001000 s5"
  define s7 where "s7 = tick 1 ''m2p8w5c1d'' 1700000002000 s6"
  have ne: "(2::nat) \<noteq> 1" by simp
  note t5 = tick_leaked [OF f4(1,2) ne f4(3), of "''k3x9q0a7z''" 1700000000000,
      folded s5_def]
  from t5 have g5: "find (\<lambda>iv. handle iv = 1) (intervals s5) = Some iv1" "timerRef s5 = Some 2"
    "timeLeft s5 \<le> 1" by simp_all
  note t6 = tick_leaked [OF g5(1,2) ne g5(3), of "''m2p8w5c1d''" 1700000001000,
      folded s6_def]
  from t6 have g6: "find (\<lambda>iv. handle iv = 1) (intervals s6) = Some iv1" "timerRef s6 = Some 2"
    "timeLeft s6 \<le> 1" by simp_all
  note t7 = tick_leaked [OF g6(1,2) ne g6(3), of "''m2p8w5c1d''" 1700000002000,
      folded s7_def]
  have w: "calculateWPM 1 60 = 1" by code_simp
  have cd: "closed_duration iv1 = 60" by (simp add: iv1_def)
  have obs: "status s7 = Finished" "duration s7 = 15"
    "map correctWords (history s7) = [1, 1, 1]"
    "map wpm (history s7) = [1, 1, 1]"
    "map timeSpent (history s7) = [60, 60, 60]"
    using t5 t6 t7 by (simp_all add: f4 cd w)
  have "run ([InputChange ''t'' r, SelectDuration 15 r, InputChange ''the '' r]
                   @ ts
                   @ [Tick 1 ''k3x9q0a7z'' 1700000000000,
                      Tick 1 ''m2p8w5c1d'' 1700000001000,
                      Tick 1 ''m2p8w5c1d'' 1700000002000]) s0 = Inr s7"
    by (simp add: s1 sd s3 run_append r14 s5_def s6_def s7_def)
  from this [unfolded ts_def r_def] m [unfolded r_def] obs show ?thesis by simp
qed


section \<open>getScoreHistory\<close>

lemma length_skip_ws: "length (skip_ws cs) \<le> length cs"
  by (simp add: skip_ws_def length_dropWhile_le)

lemma skip_ws_Cons: "skip_ws cs = c # rest \<Longrightarrow> length rest < length cs"
  using length_skip_ws [of cs] by simp

lemma parse_chars_length: "parse_chars cs acc = Some (s, rest) \<Longrightarrow> length rest \<le> length cs"
proof (induction cs acc arbitrary: s rest rule: parse_chars.induct)
  case (1 acc)
  then show ?case by simp
next
  case (2 c cs acc)
  then show ?case
    by (auto split: if_splits list.splits option.splits) fastforce+
qed

lemma digits1_length: "digits1 cs = Some (ds, rest) \<Longrightarrow> length rest \<le> length cs"
  by (auto simp: digits1_def length_dropWhile_le split: if_splits)


lemma parse_number_length:
  "parse_number cs = Some (lexeme, rest) \<Longrightarrow> length rest \<le> length cs"
  unfolding parse_number_def Let_def
  by (auto split: list.splits if_splits option.splits prod.splits dest!: digits1_length)

lemma parse_consumes:
  "(\<forall>cs v rest. parse_value n cs = Ok v rest \<longrightarrow> length rest \<le> length cs)
   \<and> (\<forall>cs acc v rest. parse_elements n cs acc = Ok v rest \<longrightarrow> length rest \<le> length cs)
   \<and> (\<forall>cs acc v rest. parse_members n cs acc = Ok v rest \<longrightarrow> length rest \<le> length cs)"
proof (induction n)
  case 0
  show ?case by simp
next
  case (Suc n)
  then have V: "\<And>cs v rest. parse_value n cs = Ok v rest \<Longrightarrow> length rest \<le> length cs"
    and E: "\<And>cs acc v rest. parse_elements n cs acc = Ok v rest \<Longrightarrow> length rest \<le> length cs"
    and M: "\<And>cs acc v rest. parse_members n cs acc = Ok v rest \<Longrightarrow> length rest \<le> length cs"
    by blast+
  have v: "length rest \<le> length cs" if "parse_value (Suc n) cs = Ok v rest" for cs v rest
  proof (cases "skip_ws cs")
    case Nil
    with that show ?thesis by simp
  next
    case (Cons c r)
    have r: "length r < length cs" using Cons by (rule skip_ws_Cons)
    have r2: "length r' < length cs" if "skip_ws r = d # r'" for d r'
      using skip_ws_Cons [OF that] r by simp
    have t: "length (drop k (c # r)) \<le> length cs" for k using r by simp
    from that Cons show ?thesis
      using r r2 t
      by (auto split: if_splits list.splits option.splits
          dest!: E parse_chars_length parse_number_length M)
  qed
  have e: "length rest \<le> length cs" if "parse_elements (Suc n) cs acc = Ok v rest"
    for cs acc v rest
    using that
    by (auto split: parsed.splits list.splits if_splits dest!: V E skip_ws_Cons)
  have m: "length rest \<le> length cs" if "parse_members (Suc n) cs acc = Ok v rest"
    for cs acc v rest
    using that
    by (auto split: parsed.splits list.splits if_splits option.splits
        dest!: V M skip_ws_Cons parse_chars_length)
  from v e m show ?case by blast
qed

lemma parse_value_length: "parse_value n cs = Ok v rest \<Longrightarrow> length rest \<le> length cs"
  using parse_consumes [of n] by blast

lemma parse_fuel:
  "(\<forall>cs. 2 * length cs + 1 \<le> n \<longrightarrow> parse_value n cs \<noteq> Fuel)
   \<and> (\<forall>cs acc. 2 * length cs + 2 \<le> n \<longrightarrow> parse_elements n cs acc \<noteq> Fuel)
   \<and> (\<forall>cs acc. 2 * length cs + 2 \<le> n \<longrightarrow> parse_members n cs acc \<noteq> Fuel)"
proof (induction n)
  case 0
  show ?case by simp
next
  case (Suc n)
  then have V: "\<And>cs. 2 * length cs + 1 \<le> n \<Longrightarrow> parse_value n cs \<noteq> Fuel"
    and E: "\<And>cs acc. 2 * length cs + 2 \<le> n \<Longrightarrow> parse_elements n cs acc \<noteq> Fuel"
    and M: "\<And>cs acc. 2 * length cs + 2 \<le> n \<Longrightarrow> parse_members n cs acc \<noteq> Fuel"
    by blast+
  have v: "parse_value (Suc n) cs \<noteq> Fuel" if "2 * length cs + 1 \<le> Suc n" for cs
  proof (cases "skip_ws cs")
    case Nil
    then show ?thesis by simp
  next
    case (Cons c r)
    have "length r < length cs" using Cons by (rule skip_ws_Cons)
    with that have "2 * length r + 2 \<le> n" by simp
    then have "parse_elements n r [] \<noteq> Fuel" "parse_members n r [] \<noteq> Fuel"
      by (simp_all add: E M)
    with Cons show ?thesis
      by (auto split: list.splits option.splits)
  qed
  have e: "parse_elements (Suc n) cs acc \<noteq> Fuel" if "2 * length cs + 2 \<le> Suc n" for cs acc
  proof -
    from that have "parse_value n cs \<noteq> Fuel" by (intro V) simp
    moreover have "parse_elements n r' acc' \<noteq> Fuel"
      if "parse_value n cs = Ok w r" "skip_ws r = d # r'" for w r d r' acc'
    proof -
      have "length r \<le> length cs" using that(1) by (rule parse_value_length)
      moreover have "length r' < length r" using that(2) by (rule skip_ws_Cons)
      ultimately show ?thesis using \<open>2 * length cs + 2 \<le> Suc n\<close> by (intro E) simp
    qed
    ultimately show ?thesis
      by (auto split: parsed.splits list.splits)
  qed
  have m: "parse_members (Suc n) cs acc \<noteq> Fuel" if "2 * length cs + 2 \<le> Suc n" for cs acc
  proof (cases "skip_ws cs")
    case Nil
    then show ?thesis by simp
  next
    case (Cons q r)
    have r: "length r < length cs" using Cons by (rule skip_ws_Cons)
    have val: "parse_value n r2 \<noteq> Fuel"
      if "parse_chars r [] = Some (k, r1)" "skip_ws r1 = colon # r2" for k r1 colon r2
    proof -
      have "length r1 \<le> length r" using that(1) by (rule parse_chars_length)
      moreover have "length r2 < length r1" using that(2) by (rule skip_ws_Cons)
      ultimately show ?thesis using r \<open>2 * length cs + 2 \<le> Suc n\<close> by (intro V) simp
    qed
    have mem: "parse_members n r4 acc' \<noteq> Fuel"
      if "parse_chars r [] = Some (k, r1)" "skip_ws r1 = colon # r2"
        "parse_value n r2 = Ok w r3" "skip_ws r3 = d # r4" for k r1 colon r2 w r3 d r4 acc'
    proof -
      have "length r1 \<le> length r" using that(1) by (rule parse_chars_length)
      moreover have "length r2 < length r1" using that(2) by (rule skip_ws_Cons)
      moreover have "length r3 \<le> length r2" using that(3) by (rule parse_value_length)
      moreover have "length r4 < length r3" using that(4) by (rule skip_ws_Cons)
      ultimately show ?thesis using r \<open>2 * length cs + 2 \<le> Suc n\<close> by (intro M) simp
    qed
    from Cons val mem show ?thesis
      by (auto split: parsed.splits list.splits option.splits)
  qed
  from v e m show ?case by blast
qed

lemma JSON_parse_fuel: "parse_value (2 * length source + 2) source \<noteq> Fuel"
  using parse_fuel [of "2 * length source + 2"] by simp

text \<open>
  Claim C9, as stated, fails: when the text stored under \<open>typing_scores\<close> is not
  JSON, \<open>getScoreHistory\<close> does not return an empty history; the \<open>SyntaxError\<close> of
  \<open>JSON.parse\<close> reaches the caller.
\<close>

theorem getScoreHistory_malformed_counterexample:
  "getScoreHistory (Map.empty(''typing_scores'' \<mapsto> ''[{'')) = Inl SyntaxError
   \<and> getScoreHistory (Map.empty(''typing_scores'' \<mapsto> ''undefined'')) = Inl SyntaxError"
  by code_simp

text \<open>
  Claim C9, amended. \<open>getScoreHistory\<close> returns the empty list when nothing, or the
  empty text, is stored under \<open>typing_scores\<close>; otherwise it returns what
  \<open>JSON.parse\<close> makes of the stored text: the stored history when the text is JSON,
  and the \<open>SyntaxError\<close> when it is not.
\<close>

theorem getScoreHistory_parse:
  "(localStorage ''typing_scores'' = None \<or> localStorage ''typing_scores'' = Some []
      \<longrightarrow> getScoreHistory localStorage = Inr (JArray []))
   \<and> (localStorage ''typing_scores'' = Some item \<and> item \<noteq> []
      \<longrightarrow> getScoreHistory localStorage = JSON_parse item
        \<and> (JSON_parse item = Inl SyntaxError \<longrightarrow> getScoreHistory localStorage = Inl SyntaxError)
        \<and> parse_value (2 * length item + 2) item \<noteq> Fuel)"
proof -
  have empty: "JSON_parse ''[]'' = Inr (JArray [])" by code_simp
  show ?thesis
    using JSON_parse_fuel [of item] by (auto simp: getScoreHistory_def empty)
qed

theorem getScoreHistory_parse_witness:
  "getScoreHistory Map.empty = Inr (JArray [])
   \<and> getScoreHistory (Map.empty(''typing_scores'' \<mapsto> ''[{}, 4]''))
       = Inr (JArray [JObject [], JNumber ''4''])
   \<and> getScoreHistory (Map.empty(''typing_scores'' \<mapsto> ''[{'')) = Inl SyntaxError"
proof -
  have p1: "JSON_parse ''[{}, 4]'' = Inr (JArray [JObject [], JNumber ''4''])" by code_simp
  have p2: "JSON_parse ''[{'' = Inl SyntaxError" by code_simp
  from getScoreHistory_parse [of Map.empty]
  have "getScoreHistory Map.empty = Inr (JArray [])" by simp
  moreover from getScoreHistory_parse
    [of "Map.empty(''typing_scores'' \<mapsto> ''[{}, 4]'')" "''[{}, 4]''"] p1
  have "getScoreHistory (Map.empty(''typing_scores'' \<mapsto> ''[{}, 4]''))
       = Inr (JArray [JObject [], JNumber ''4''])" by simp
  moreover from getScoreHistory_parse
    [of "Map.empty(''typing_scores'' \<mapsto> ''[{'')" "''[{''"] p2
  have "getScoreHistory (Map.empty(''typing_scores'' \<mapsto> ''[{'')) = Inl SyntaxError" by simp
  ultimately show ?thesis by simp
qed

end
